theory Spec2Isabelle
  imports Main "HOL-Library.AList"
begin

section \<open>Data model\<close>

text \<open>
  The program is the object \<open>i18n\<close> of \<open>script.js\<close>: a localisation loader with a memory
  cache, a durable cache in \<open>localStorage\<close>, a fetch with timeout and a translation lookup.

  A resource set is a JSON object. JSON values are modelled as a datatype; an object is an
  association list in insertion order (\<open>AList.update\<close> replaces a key in place and appends a
  new key at the end, as a JavaScript property assignment does). Numbers are integers (the
  only numbers the program writes are \<open>Date.now()\<close> and the TTL).
\<close>

datatype json =
    JNull
  | JBool bool
  | JNum int
  | JStr string
  | JArr "json list"
  | JObj "(string \<times> json) list"

type_synonym obj = "(string \<times> json) list"
type_synonym lang = string
type_synonym subst = "(string \<times> string) list"

text \<open>JavaScript truthiness of a JSON value (\<open>!translation\<close>, \<open>if (cachedData)\<close>).\<close>

fun truthy :: "json \<Rightarrow> bool" where
  "truthy JNull = False"
| "truthy (JBool b) = b"
| "truthy (JNum n) = (n \<noteq> 0)"
| "truthy (JStr s) = (s \<noteq> [])"
| "truthy (JArr xs) = True"
| "truthy (JObj kvs) = True"

text \<open>
  Property lookup \<open>obj[key]\<close>. The objects that the program looks names up in (the
  resource set \<open>this.translations\<close> and the substitution data of \<open>template\<close>) are ordinary
  objects: object literals and results of \<open>JSON.parse\<close> and \<open>response.json()\<close>, whose
  prototype is \<open>Object.prototype\<close>. An own property is found first; a name that is not an
  own property is looked up on \<open>Object.prototype\<close>, which has the members below in a browser
  whose built-in objects are untouched: \<open>constructor\<close> is the function \<open>Object\<close>,
  \<open>__proto__\<close> is an accessor that gives the prototype of the object, which is
  \<open>Object.prototype\<close> itself, and the others are its methods, functions named as the
  property. For any other name the lookup gives \<open>undefined\<close>, here \<open>None\<close>.
\<close>

datatype builtin = NativeFunction string | PrototypeObject

datatype jsval = Json json | Builtin builtin

definition objectPrototype :: "string \<Rightarrow> builtin option" where
  "objectPrototype k =
     (if k = ''constructor'' then Some (NativeFunction ''Object'')
      else if k = ''__proto__'' then Some PrototypeObject
      else if k \<in> set [''hasOwnProperty'', ''isPrototypeOf'', ''propertyIsEnumerable'',
                ''toLocaleString'', ''toString'', ''valueOf'', ''__defineGetter__'',
                ''__defineSetter__'', ''__lookupGetter__'', ''__lookupSetter__'']
      then Some (NativeFunction k)
      else None)"

definition getProperty :: "obj \<Rightarrow> string \<Rightarrow> jsval option" where
  "getProperty ob k =
     (case map_of ob k of Some v \<Rightarrow> Some (Json v) | None \<Rightarrow> map_option Builtin (objectPrototype k))"

text \<open>Truthiness of a looked-up value: a function and an object are truthy.\<close>

fun truthy_val :: "jsval \<Rightarrow> bool" where
  "truthy_val (Json v) = truthy v"
| "truthy_val (Builtin b) = True"

text \<open>
  The string that a built-in value converts to. The text of a native function is
  \<open>function\<close>, the name, the parameter list and \<open>[native code]\<close> in braces; engines differ
  in its white space only (this is the text in V8), and it is never empty.
\<close>

fun builtinText :: "builtin \<Rightarrow> string" where
  "builtinText (NativeFunction name) = ''function '' @ name @ ''() { [native code] }''"
| "builtinText PrototypeObject = ''[object Object]''"

text \<open>
  Errors that the modelled functions raise: the two \<open>Error\<close>s that a load rejects with
  (the timeout of \<open>loadTranslationsWithTimeout\<close>, the final \<open>throw\<close> of \<open>loadTranslations\<close>)
  and the \<open>TypeError\<close> of calling \<open>.replace\<close> on a value that is not a string.
\<close>

datatype error = Timeout lang | LoadFailed lang | TypeError

datatype outcome = Fulfilled | Rejected error

text \<open>
  What one \<open>fetch\<close> of \<open>i18n/<lang>.json\<close> ends in: a response with \<open>ok\<close> whose body
  parses to an object, a response that is not \<open>ok\<close> (with its status), a rejected
  \<open>fetch\<close>, or a body that \<open>response.json()\<close> rejects.
\<close>

datatype response = Ok obj | NotOk nat | NetworkError | ParseError

text \<open>
  The async functions are split at their \<open>await\<close>s. A \<open>caller\<close> is the rest of an async
  function that awaits \<open>loadTranslationsWithTimeout\<close>; an \<open>owner\<close> is what consumes the
  promise of one \<open>loadTranslations\<close> call: the race of \<open>loadTranslationsWithTimeout\<close>, the
  outer \<open>loadTranslations\<close> that awaits the load of the base language, the background
  refresh, or the \<open>.catch\<close> of a preload.
\<close>

datatype caller = Switch_await lang | Init_await_first | Init_await_default

datatype owner = Race nat | Outer lang owner | Refresh lang | Preload lang

datatype timer = TimeoutTimer nat lang | RefreshTimer lang | PreloadTimer "lang list"

datatype job = Deliver owner outcome | Resume caller outcome

text \<open>
  The text stored under a key \<open>i18n_<lang>\<close> of \<open>localStorage\<close>: either the JSON text of an
  object (\<open>JSON.parse (JSON.stringify o) = o\<close> on JSON data, so the text is represented by
  the object), or a string that is empty or that \<open>JSON.parse\<close> rejects. The JSON text of a
  value that is not an object, which the program never writes, is not modelled; nor is a
  response body of that kind.
\<close>

datatype stored = JsonText obj | Garbled

text \<open>
  One \<open>Promise.race\<close> created by \<open>loadTranslationsWithTimeout\<close>: the language, how it
  settled (if it has), and the callers awaiting it in the order they arrived.
\<close>

record race_op =
  race_lang :: lang
  settled :: "outcome option"
  waiters :: "caller list"

text \<open>
  The state: the fields of \<open>i18n\<close> (its field \<open>translations\<close> is \<open>activeTranslations\<close>
  here, the source's name being a keyword of Isabelle), the browser around it
  (\<open>localStorage\<close> split by key family: the key \<open>userLangPreference\<close> and the keys
  \<open>i18n_<lang>\<close>; the clock of \<open>Date.now()\<close>; whether \<open>setItem\<close> succeeds; whether
  \<open>requestIdleCallback\<close> exists; the value last passed to \<open>showLoadingIndicator\<close>), and the
  event loop: the races, the fetches in flight with the owner of each, the timers with
  their due time, the microtask queue, and two logs, of every fetch issued and of every
  race whose \<open>finally\<close> block ran \<open>loadingPromises.delete\<close>.
\<close>

record world =
  activeTranslations :: obj
  currentLang :: lang
  cache :: "lang \<rightharpoonup> obj"
  initialized :: bool
  fallbackChain :: "lang \<rightharpoonup> lang list"
  preloadedLangs :: "lang list"
  loadingPromises :: "lang \<rightharpoonup> nat"
  templateCache :: "(jsval \<rightharpoonup> (subst \<Rightarrow> error + string)) option"
  userLangPreference :: "string option"
  durable :: "lang \<rightharpoonup> stored"
  storageWritable :: bool
  clock :: int
  idleCallback :: bool
  loadingIndicator :: bool
  races :: "nat \<rightharpoonup> race_op"
  nextRace :: nat
  network :: "(lang \<times> owner) list"
  timers :: "(int \<times> timer) list"
  microtasks :: "job list"
  requests :: "lang list"
  deleted :: "nat list"

definition defaultLang :: lang where
  "defaultLang = ''en''"

definition loadTimeout :: int where
  "loadTimeout = 3000"

text \<open>The object literal \<open>i18n\<close> before any call, in a browser given by the parameters.\<close>

definition initial :: "string option \<Rightarrow> (lang \<rightharpoonup> stored) \<Rightarrow> bool \<Rightarrow> int \<Rightarrow> bool \<Rightarrow> world" where
  "initial pref store writable now idle =
     \<lparr> activeTranslations = [], currentLang = [], cache = Map.empty, initialized = False,
       fallbackChain = Map.empty, preloadedLangs = [], loadingPromises = Map.empty,
       templateCache = None, userLangPreference = pref, durable = store,
       storageWritable = writable, clock = now, idleCallback = idle,
       loadingIndicator = False, races = Map.empty, nextRace = 0, network = [],
       timers = [], microtasks = [], requests = [], deleted = [] \<rparr>"

section \<open>Fallback resolver\<close>

text \<open>\<open>langCode.split('-')[0]\<close>: the text before the first \<open>-\<close>, all of it when there is none.\<close>

definition baseOf :: "lang \<Rightarrow> lang" where
  "baseOf langCode = takeWhile (\<lambda>c. c \<noteq> CHR ''-'') langCode"

definition setFallbackChain :: "world \<Rightarrow> world" where
  "setFallbackChain s =
     s\<lparr>fallbackChain := (fallbackChain s)
         (''zh-CN'' \<mapsto> [''zh-CN'', ''zh''],
          ''zh-TW'' \<mapsto> [''zh-TW'', ''zh''],
          ''en-US'' \<mapsto> [''en-US'', ''en''],
          ''en-GB'' \<mapsto> [''en-GB'', ''en''])\<rparr>"

definition findAvailableLanguage :: "world \<Rightarrow> lang \<Rightarrow> lang" where
  "findAvailableLanguage s langCode =
     (let baseLang = baseOf langCode in
      if fallbackChain s langCode \<noteq> None then langCode
      else if fallbackChain s baseLang \<noteq> None then baseLang
      else langCode)"

section \<open>Durable cache\<close>

definition ttl30days :: int where
  "ttl30days = 30 * 24 * 60 * 60 * 1000"

text \<open>
  \<open>loadFromLocalStorage\<close>: a stored text that is not empty and parses becomes the active
  translations and the memory cache entry, whatever its \<open>__timestamp\<close> and \<open>__ttl\<close>; a
  missing, empty or unparseable text gives \<open>false\<close>.
\<close>

definition loadFromLocalStorage :: "world \<Rightarrow> lang \<Rightarrow> bool \<times> world" where
  "loadFromLocalStorage s lng =
     (case durable s lng of
        Some (JsonText parsedData) \<Rightarrow>
          (True, s\<lparr>activeTranslations := parsedData, cache := (cache s)(lng \<mapsto> parsedData)\<rparr>)
      | Some Garbled \<Rightarrow> (False, s)
      | None \<Rightarrow> (False, s))"

text \<open>
  \<open>saveToLocalStorage\<close>: the active translations spread into a new object with the two
  reserved fields, written under the language's key; a failing \<open>setItem\<close> is caught.
\<close>

definition cacheData :: "world \<Rightarrow> obj" where
  "cacheData s =
     AList.update ''__ttl'' (JNum ttl30days)
       (AList.update ''__timestamp'' (JNum (clock s)) (activeTranslations s))"

definition saveToLocalStorage :: "world \<Rightarrow> lang \<Rightarrow> world" where
  "saveToLocalStorage s lng =
     (if storageWritable s then s\<lparr>durable := (durable s)(lng \<mapsto> JsonText (cacheData s))\<rparr>
      else s)"

text \<open>The object literal that \<open>useMinimalFallbackTranslations\<close> installs.\<close>

definition minimalFallback :: obj where
  "minimalFallback =
     [(''pageTitle'', JStr ''Will you be my sweetheart?''),
      (''greeting'', JStr ''What should I call you?''),
      (''confirmButton'', JStr ''Confirm''),
      (''questionTemplate'', JStr ''{username}? Will you be my love?''),
      (''loveMessage'', JStr ''I love you! {username}''),
      (''yesButton'', JStr ''Yes!''),
      (''noButton'', JStr ''No...''),
      (''noTexts'', JArr [JStr ''Wait, really?'', JStr ''My heart is cracking...'',
         JStr ''Please think again!'', JStr (''I'' @ [CHR 0x27] @ ''ll cry a river...''),
         JStr ''Final answer?''])]"

definition useMinimalFallbackTranslations :: "world \<Rightarrow> world" where
  "useMinimalFallbackTranslations s = s\<lparr>activeTranslations := minimalFallback\<rparr>"

section \<open>Translation facade\<close>

text \<open>
  The replacement \<open>str.replace(/\{([^{}]+)\}/g, ...)\<close>: scanning from the left, an opening
  brace followed by one or more characters other than braces and then a closing brace is a
  placeholder; it is replaced by \<open>data[key] || ''\<close> converted to a string, and the scan
  goes on behind it. Any other character is copied. The substitution data is an object
  whose own properties are strings.
\<close>

definition not_brace :: "char \<Rightarrow> bool" where
  "not_brace c = (c \<noteq> CHR ''{'' \<and> c \<noteq> CHR ''}'')"

text \<open>
  Given the text behind an opening brace: the key and the text behind the closing brace,
  when a placeholder starts here.
\<close>

definition placeholder_at :: "string \<Rightarrow> (string \<times> string) option" where
  "placeholder_at cs =
     (case dropWhile not_brace cs of
        [] \<Rightarrow> None
      | c # rest \<Rightarrow>
          if takeWhile not_brace cs \<noteq> [] \<and> c = CHR ''}''
          then Some (takeWhile not_brace cs, rest) else None)"

text \<open>
  \<open>data[key] || ''\<close> as the replacement text: the own string under the name; for a name
  that is not an own property, the text of the member of \<open>Object.prototype\<close> of that name,
  which is truthy; the empty string when there is neither.
\<close>

definition value_of :: "subst \<Rightarrow> string \<Rightarrow> string" where
  "value_of d k =
     (case map_of d k of
        Some v \<Rightarrow> v
      | None \<Rightarrow> (case objectPrototype k of Some b \<Rightarrow> builtinText b | None \<Rightarrow> []))"

function replace_placeholders :: "string \<Rightarrow> subst \<Rightarrow> string" where
  "replace_placeholders [] d = []"
| "replace_placeholders (c # cs) d =
     (if c = CHR ''{'' then
        (case placeholder_at cs of
           Some (k, rest) \<Rightarrow> value_of d k @ replace_placeholders rest d
         | None \<Rightarrow> c # replace_placeholders cs d)
      else c # replace_placeholders cs d)"
  by pat_completeness auto
termination
proof (relation "measure (\<lambda>(cs, d). length cs)")
  show "wf (measure (\<lambda>(cs, d). length cs))" by simp
next
  fix c :: char and cs :: string and d :: subst and x2 :: "string \<times> string" and k rest :: string
  assume "placeholder_at cs = Some x2" and "(k, rest) = x2"
  then have "dropWhile not_brace cs = CHR ''}'' # rest"
    by (auto simp: placeholder_at_def split: list.splits if_splits)
  then have "length rest < length (dropWhile not_brace cs)" by simp
  also have "\<dots> \<le> length cs" by (rule length_dropWhile_le)
  finally show "((rest, d), c # cs, d) \<in> measure (\<lambda>(cs, d). length cs)" by simp
qed simp_all

text \<open>
  The closure that \<open>template\<close> compiles for \<open>str\<close>: on a string it replaces the
  placeholders; on any other value (a number, an array, an object, a function)
  \<open>str.replace\<close> is not a function and the call throws.
\<close>

definition compile :: "jsval \<Rightarrow> subst \<Rightarrow> error + string" where
  "compile str d =
     (case str of Json (JStr cs) \<Rightarrow> Inr (replace_placeholders cs d) | _ \<Rightarrow> Inl TypeError)"

text \<open>
  \<open>template\<close>: the closure is taken from \<open>templateCache\<close> (a \<open>Map\<close>, created on first
  use) or compiled and stored there, then applied to the data. (A \<open>Map\<close> compares arrays
  and objects by identity and the model by structure; the closure of a value that is not a
  string throws whatever the data, so the results are the same.)
\<close>

definition template :: "world \<Rightarrow> jsval \<Rightarrow> subst \<Rightarrow> (error + string) \<times> world" where
  "template s str d =
     (let tc = (case templateCache s of None \<Rightarrow> Map.empty | Some m \<Rightarrow> m) in
      case tc str of
        Some compiledTemplate \<Rightarrow> (compiledTemplate d, s\<lparr>templateCache := Some tc\<rparr>)
      | None \<Rightarrow> (compile str d, s\<lparr>templateCache := Some (tc(str \<mapsto> compile str))\<rparr>))"

text \<open>
  \<open>t(key, data = {})\<close>: \<open>this.translations[key]\<close> that is \<open>undefined\<close> or falsy gives the
  key; with at least one substitution the translation goes through \<open>template\<close>, otherwise
  it is returned as it is.
\<close>

definition t :: "world \<Rightarrow> string \<Rightarrow> subst \<Rightarrow> (error + jsval) \<times> world" where
  "t s key d =
     (case getProperty (activeTranslations s) key of
        None \<Rightarrow> (Inr (Json (JStr key)), s)
      | Some translation \<Rightarrow>
          if \<not> truthy_val translation then (Inr (Json (JStr key)), s)
          else if d \<noteq> [] then
            (case template s translation d of
               (Inl e, s') \<Rightarrow> (Inl e, s')
             | (Inr str, s') \<Rightarrow> (Inr (Json (JStr str)), s'))
          else (Inr translation, s))"

text \<open>
  Every closure in a well-formed \<open>templateCache\<close> is the one compiled from its key: the
  only entries \<open>template\<close> ever stores.
\<close>

definition templateCache_wf :: "world \<Rightarrow> bool" where
  "templateCache_wf s =
     (case templateCache s of
        None \<Rightarrow> True
      | Some m \<Rightarrow> \<forall>str f. m str = Some f \<longrightarrow> f = compile str)"

section \<open>Loading: the async functions, split at their awaits\<close>

text \<open>
  JavaScript runs one task at a time. A task (a call from the page, a response of the
  network, a timer) runs to its end; then the microtasks it queued (the continuations of
  settled promises) run until the queue is empty; only then the next task starts. The
  model keeps this: a task appends jobs to \<open>microtasks\<close>, and the next task is taken only when
  the queue is empty. \<open>fetch\<close> and \<open>response.json()\<close> are one await here: no field of the
  state changes between the two.

  \<open>applyTranslations\<close>, \<open>applyCriticalTranslations\<close> and the \<open>console\<close> calls write to the
  document and the console only, which are not part of the state.
\<close>

definition enqueue :: "job \<Rightarrow> world \<Rightarrow> world" where
  "enqueue j s = s\<lparr>microtasks := microtasks s @ [j]\<rparr>"

text \<open>
  \<open>loadTranslations\<close> up to its first await: a memory cache hit assigns the translations and
  returns (its promise is fulfilled at once); otherwise the fetch is issued.
\<close>

definition loadTranslations :: "world \<Rightarrow> lang \<Rightarrow> owner \<Rightarrow> world" where
  "loadTranslations s lng own =
     (case cache s lng of
        Some r \<Rightarrow> enqueue (Deliver own Fulfilled) (s\<lparr>activeTranslations := r\<rparr>)
      | None \<Rightarrow> s\<lparr>network := network s @ [(lng, own)], requests := requests s @ [lng]\<rparr>)"

text \<open>
  The \<open>catch\<close> block of \<open>loadTranslations\<close>: a language with a base other than itself falls
  back to the cached base or loads the base and awaits it; otherwise the load is rejected.
\<close>

definition loadTranslations_catch :: "world \<Rightarrow> lang \<Rightarrow> owner \<Rightarrow> world" where
  "loadTranslations_catch s lng own =
     (let baseLang = baseOf lng in
      if baseLang \<noteq> lng then
        (case cache s baseLang of
           Some r \<Rightarrow> enqueue (Deliver own Fulfilled) (s\<lparr>activeTranslations := r\<rparr>)
         | None \<Rightarrow> loadTranslations s baseLang (Outer lng own))
      else enqueue (Deliver own (Rejected (LoadFailed lng))) s)"

text \<open>\<open>loadTranslations\<close> behind the await of its fetch.\<close>

definition loadTranslations_response :: "world \<Rightarrow> lang \<Rightarrow> owner \<Rightarrow> response \<Rightarrow> world" where
  "loadTranslations_response s lng own resp =
     (case resp of
        Ok r \<Rightarrow>
          enqueue (Deliver own Fulfilled)
            (s\<lparr>activeTranslations := r, cache := (cache s)(lng \<mapsto> r)\<rparr>)
      | NotOk status \<Rightarrow> loadTranslations_catch s lng own
      | NetworkError \<Rightarrow> loadTranslations_catch s lng own
      | ParseError \<Rightarrow> loadTranslations_catch s lng own)"

text \<open>
  \<open>loadTranslationsWithTimeout\<close> up to its await: a language with a registered promise
  joins it; otherwise the timer is set, \<open>loadTranslations\<close> is called, and the race of the
  two is registered with the caller waiting for it.
\<close>

definition loadTranslationsWithTimeout :: "world \<Rightarrow> lang \<Rightarrow> caller \<Rightarrow> world" where
  "loadTranslationsWithTimeout s lng c =
     (case loadingPromises s lng of
        Some p \<Rightarrow>
          (case races s p of
             Some r \<Rightarrow>
               (case settled r of
                  None \<Rightarrow> s\<lparr>races := (races s)(p \<mapsto> r\<lparr>waiters := waiters r @ [c]\<rparr>)\<rparr>
                | Some out \<Rightarrow> enqueue (Resume c out) s)
           | None \<Rightarrow> s)
      | None \<Rightarrow>
          (let p = nextRace s;
               s1 = s\<lparr>timers := timers s @ [(clock s + loadTimeout, TimeoutTimer p lng)],
                      nextRace := Suc p\<rparr>;
               s2 = loadTranslations s1 lng (Race p)
           in s2\<lparr>races := (races s2)(p \<mapsto> \<lparr>race_lang = lng, settled = None, waiters = [c]\<rparr>),
                 loadingPromises := (loadingPromises s2)(lng \<mapsto> p)\<rparr>))"

definition showLoadingIndicator :: "world \<Rightarrow> bool \<Rightarrow> world" where
  "showLoadingIndicator s show_it = s\<lparr>loadingIndicator := show_it\<rparr>"

definition refreshTranslationsInBackground :: "world \<Rightarrow> lang \<Rightarrow> world" where
  "refreshTranslationsInBackground s lng =
     s\<lparr>timers := timers s @ [(clock s + 1000, RefreshTimer lng)]\<rparr>"

text \<open>
  \<open>preloadPopularLanguages\<close> defers its loop to \<open>requestIdleCallback\<close> (it may run at any
  time from now) or to a timer of 2000 ms.
\<close>

definition preloadPopularLanguages :: "world \<Rightarrow> lang list \<Rightarrow> world" where
  "preloadPopularLanguages s langCodes =
     (if langCodes = [] then s
      else s\<lparr>timers := timers s @
             [(if idleCallback s then clock s else clock s + 2000, PreloadTimer langCodes)]\<rparr>)"

text \<open>The deferred loop: \<open>langCodes.forEach\<close>.\<close>

fun preload_each :: "world \<Rightarrow> lang list \<Rightarrow> world" where
  "preload_each s [] = s"
| "preload_each s (lng # langCodes) =
     preload_each
       (if lng \<noteq> currentLang s \<and> lng \<notin> set (preloadedLangs s)
        then loadTranslations (s\<lparr>preloadedLangs := preloadedLangs s @ [lng]\<rparr>) lng (Preload lng)
        else s)
       langCodes"

text \<open>The end of \<open>init\<close>, behind its \<open>try\<close>.\<close>

definition init_finish :: "world \<Rightarrow> world" where
  "init_finish s =
     preloadPopularLanguages (s\<lparr>initialized := True\<rparr>)
       [''en'', ''zh-CN'', ''zh-TW'', ''ja'', ''ko'']"

text \<open>
  The language that \<open>init\<close> settles on: the stored preference, else
  \<open>navigator.language\<close> (the argument; empty when the browser gives none), else the
  default, passed through \<open>findAvailableLanguage\<close>.
\<close>

definition detectLanguage :: "world \<Rightarrow> string \<Rightarrow> lang" where
  "detectLanguage s navigatorLanguage =
     (let browserLang = (if navigatorLanguage \<noteq> [] then navigatorLanguage else defaultLang);
          langCode = (case userLangPreference s of
                        Some userPref \<Rightarrow> if userPref \<noteq> [] then userPref else browserLang
                      | None \<Rightarrow> browserLang)
      in findAvailableLanguage s langCode)"

text \<open>\<open>init\<close> up to its first await.\<close>

definition init :: "world \<Rightarrow> string \<Rightarrow> world" where
  "init s navigatorLanguage =
     (let s1 = setFallbackChain s;
          s2 = s1\<lparr>currentLang := detectLanguage s1 navigatorLanguage\<rparr>;
          hasCached = fst (loadFromLocalStorage s2 (currentLang s2));
          s3 = snd (loadFromLocalStorage s2 (currentLang s2))
      in if hasCached then init_finish (refreshTranslationsInBackground s3 (currentLang s3))
         else loadTranslationsWithTimeout s3 (currentLang s3) Init_await_first)"

text \<open>
  \<open>switchLanguage\<close> up to its await. A \<open>setItem\<close> that throws ends the call before the
  indicator and the load.
\<close>

definition switchLanguage :: "world \<Rightarrow> lang \<Rightarrow> world" where
  "switchLanguage s lng =
     (if lng = currentLang s \<and> initialized s then s
      else
        (let s1 = s\<lparr>currentLang := lng\<rparr> in
         if storageWritable s1 then
           loadTranslationsWithTimeout
             (showLoadingIndicator (s1\<lparr>userLangPreference := Some lng\<rparr>) True)
             lng (Switch_await lng)
         else s1))"

text \<open>
  One microtask. A settled \<open>loadTranslations\<close> is delivered to its owner: the first delivery
  to a race settles it, runs the \<open>finally\<close> of the call that created it
  (\<open>loadingPromises.delete\<close>) and resumes its callers; a later delivery to a settled race
  has no effect. The outer \<open>loadTranslations\<close> returns when the base load is fulfilled and
  throws its own error otherwise. A caller resumes behind its await.
\<close>

fun run_job :: "world \<Rightarrow> job \<Rightarrow> world" where
  "run_job s (Deliver (Race p) out) =
     (case races s p of
        Some r \<Rightarrow>
          (case settled r of
             None \<Rightarrow>
               s\<lparr>races := (races s)(p \<mapsto> r\<lparr>settled := Some out\<rparr>),
                 loadingPromises := (loadingPromises s)(race_lang r := None),
                 deleted := deleted s @ [p],
                 microtasks := microtasks s @ map (\<lambda>c. Resume c out) (waiters r)\<rparr>
           | Some first \<Rightarrow> s)
      | None \<Rightarrow> s)"
| "run_job s (Deliver (Outer lng own) out) =
     (case out of
        Fulfilled \<Rightarrow> enqueue (Deliver own Fulfilled) s
      | Rejected e \<Rightarrow> enqueue (Deliver own (Rejected (LoadFailed lng))) s)"
| "run_job s (Deliver (Refresh lng) out) =
     (case out of Fulfilled \<Rightarrow> saveToLocalStorage s lng | Rejected e \<Rightarrow> s)"
| "run_job s (Deliver (Preload lng) out) = s"
| "run_job s (Resume (Switch_await lng) out) =
     (case out of
        Fulfilled \<Rightarrow> showLoadingIndicator (saveToLocalStorage s lng) False
      | Rejected e \<Rightarrow> showLoadingIndicator s False)"
| "run_job s (Resume Init_await_first out) =
     (case out of
        Fulfilled \<Rightarrow> init_finish (saveToLocalStorage s (currentLang s))
      | Rejected e \<Rightarrow> loadTranslationsWithTimeout s defaultLang Init_await_default)"
| "run_job s (Resume Init_await_default out) =
     (case out of
        Fulfilled \<Rightarrow> init_finish (saveToLocalStorage s defaultLang)
      | Rejected e \<Rightarrow> init_finish (useMinimalFallbackTranslations s))"

text \<open>A timer that fires.\<close>

fun fire :: "world \<Rightarrow> timer \<Rightarrow> world" where
  "fire s (TimeoutTimer p lng) = enqueue (Deliver (Race p) (Rejected (Timeout lng))) s"
| "fire s (RefreshTimer lng) = loadTranslations s lng (Refresh lng)"
| "fire s (PreloadTimer langCodes) = preload_each s langCodes"

definition remove_nth :: "nat \<Rightarrow> 'a list \<Rightarrow> 'a list" where
  "remove_nth i xs = take i xs @ drop (Suc i) xs"

section \<open>The event loop\<close>

text \<open>
  The events: the page calls \<open>init\<close> or \<open>switchLanguage\<close>, the fetch at a position of
  \<open>network\<close> is answered, the timer at a position of \<open>timers\<close> fires (not before it is due),
  time passes, or the next microtask runs. \<open>step\<close> is \<open>None\<close> for an event that cannot
  happen in the state.
\<close>

datatype event =
    Call_init string
  | Call_switchLanguage lang
  | Response nat response
  | Tick nat
  | Elapse nat
  | Micro

fun task :: "world \<Rightarrow> event \<Rightarrow> world option" where
  "task s (Call_init navigatorLanguage) = Some (init s navigatorLanguage)"
| "task s (Call_switchLanguage lng) = Some (switchLanguage s lng)"
| "task s (Response i resp) =
     (if i < length (network s)
      then Some (loadTranslations_response (s\<lparr>network := remove_nth i (network s)\<rparr>)
                   (fst (network s ! i)) (snd (network s ! i)) resp)
      else None)"
| "task s (Tick i) =
     (if i < length (timers s) \<and> fst (timers s ! i) \<le> clock s
      then Some (fire (s\<lparr>timers := remove_nth i (timers s)\<rparr>) (snd (timers s ! i)))
      else None)"
| "task s (Elapse d) = Some (s\<lparr>clock := clock s + int d\<rparr>)"
| "task s Micro = None"

definition step :: "world \<Rightarrow> event \<Rightarrow> world option" where
  "step s e =
     (case microtasks s of
        j # js \<Rightarrow> (if e = Micro then Some (run_job (s\<lparr>microtasks := js\<rparr>) j) else None)
      | [] \<Rightarrow> task s e)"

fun run :: "world \<Rightarrow> event list \<Rightarrow> world option" where
  "run s [] = Some s"
| "run s (e # es) = (case step s e of None \<Rightarrow> None | Some s' \<Rightarrow> run s' es)"

inductive reachable :: "world \<Rightarrow> bool" where
  reach_start: "reachable (initial pref store writable now idle)"
| reach_step: "reachable s \<Longrightarrow> step s e = Some s' \<Longrightarrow> reachable s'"

section \<open>Invariants of the event loop\<close>

text \<open>
  The part of the state that \<open>loadTranslationsWithTimeout\<close> and the settling of a race
  own: the races, the registered promises, the next identifier, and the log of
  \<open>loadingPromises.delete\<close>.
\<close>

definition coord :: "world \<Rightarrow> (nat \<rightharpoonup> race_op) \<times> (lang \<rightharpoonup> nat) \<times> nat \<times> nat list" where
  "coord s = (races s, loadingPromises s, nextRace s, deleted s)"

text \<open>
  Every registered promise is a race of its language that has not settled; every race that
  has not settled is the registered promise of its language; identifiers are fresh; and
  the \<open>finally\<close> block has run once for each settled race and for no other.
\<close>

definition races_wf :: "world \<Rightarrow> bool" where
  "races_wf s =
     ((\<forall>l p. loadingPromises s l = Some p \<longrightarrow>
          (\<exists>r. races s p = Some r \<and> race_lang r = l \<and> settled r = None))
    \<and> (\<forall>p r. races s p = Some r \<and> settled r = None \<longrightarrow>
          loadingPromises s (race_lang r) = Some p)
    \<and> (\<forall>p r. races s p = Some r \<longrightarrow> p < nextRace s)
    \<and> distinct (deleted s)
    \<and> (\<forall>p. p \<in> set (deleted s) \<longleftrightarrow> (\<exists>r out. races s p = Some r \<and> settled r = Some out)))"

text \<open>
  The page as it is first opened: no stored preference, an empty \<open>localStorage\<close> that
  accepts writes, the clock at 0, no \<open>requestIdleCallback\<close>.
\<close>

definition fresh :: world where
  "fresh = initial None Map.empty True 0 False"


text \<open>
  An event in which nothing succeeds and the page calls nothing: a response that is not a
  parsed \<open>ok\<close> response, a timer, the passing of time, a microtask.
\<close>

fun failing :: "event \<Rightarrow> bool" where
  "failing (Response i (Ok r)) = False"
| "failing (Call_init navigatorLanguage) = False"
| "failing (Call_switchLanguage lng) = False"
| "failing e = True"

fun rejection :: "job \<Rightarrow> bool" where
  "rejection (Deliver own out) = (out \<noteq> Fulfilled)"
| "rejection (Resume c out) = (out \<noteq> Fulfilled)"

text \<open>
  What holds while every fetch fails: the memory cache is empty, every queued continuation
  carries a rejection, no race is fulfilled, and a finished \<open>init\<close> has installed the
  minimal set.
\<close>

definition all_failed :: "world \<Rightarrow> bool" where
  "all_failed s =
     (cache s = Map.empty
    \<and> list_all rejection (microtasks s)
    \<and> (\<forall>p r. races s p = Some r \<longrightarrow> settled r \<noteq> Some Fulfilled)
    \<and> (initialized s \<longrightarrow> activeTranslations s = minimalFallback))"


text \<open>The fields that only \<open>init\<close> and \<open>switchLanguage\<close> assign.\<close>

definition chosen :: "world \<Rightarrow> lang \<times> string option" where
  "chosen s = (currentLang s, userLangPreference s)"

text \<open>
  What a load belongs to: the owner at the end of the chain of outer \<open>loadTranslations\<close>
  calls that await it.
\<close>

fun root :: "owner \<Rightarrow> owner" where
  "root (Outer lng own) = root own"
| "root (Race p) = Race p"
| "root (Refresh lng) = Refresh lng"
| "root (Preload lng) = Preload lng"




text \<open>
  The invariant of one \<open>switchLanguage lng\<close> that awaits the race \<open>p\<close>; \<open>before\<close> are
  the translations at the call. A queued job \<open>throws\<close> when it resumes the switch with
  an error; it is good news for the race when it delivers a fulfilled load to it, and bad
  news when it delivers a rejected one.
\<close>

definition throws :: "lang \<Rightarrow> job \<Rightarrow> bool" where
  "throws lng j =
     (case j of Resume c out \<Rightarrow> c = Switch_await lng \<and> out \<noteq> Fulfilled
              | Deliver own out \<Rightarrow> False)"

definition good_news :: "nat \<Rightarrow> job \<Rightarrow> bool" where
  "good_news p j =
     (case j of Deliver own out \<Rightarrow> root own = Race p \<and> out = Fulfilled
              | Resume c out \<Rightarrow> False)"

definition bad_news :: "nat \<Rightarrow> job \<Rightarrow> bool" where
  "bad_news p j =
     (case j of Deliver own out \<Rightarrow> root own = Race p \<and> out \<noteq> Fulfilled
              | Resume c out \<Rightarrow> False)"

definition no_throw :: "lang \<Rightarrow> job list \<Rightarrow> bool" where
  "no_throw lng js = (\<not> list_ex (throws lng) js)"

definition on_its_way :: "nat \<Rightarrow> job list \<Rightarrow> bool" where
  "on_its_way p js = (list_ex (good_news p) js \<and> \<not> list_ex (bad_news p) js)"





section \<open>Properties of the resolver, the durable cache and the facade\<close>

lemma baseOf_no_dash: "CHR ''-'' \<notin> set (baseOf l)"
  unfolding baseOf_def by (induction l) auto

text \<open>
  C3 (as stated, refuted). The resolver returns one locale, not a sequence: for
  \<open>fr-CA\<close>, which has no chain entry, the result read as a one-element sequence does not
  contain the base \<open>fr\<close> and does not end with the default locale.
\<close>

theorem findAvailableLanguage_single_locale_counterexample:
  "\<not> (hd [findAvailableLanguage (setFallbackChain (initial None Map.empty True 0 False)) ''fr-CA'']
          = ''fr-CA''
      \<and> count_list
            [findAvailableLanguage (setFallbackChain (initial None Map.empty True 0 False)) ''fr-CA'']
            (baseOf ''fr-CA'') = 1
      \<and> last [findAvailableLanguage (setFallbackChain (initial None Map.empty True 0 False)) ''fr-CA'']
          = defaultLang)"
  by (simp add: findAvailableLanguage_def setFallbackChain_def initial_def baseOf_def
      defaultLang_def)

text \<open>
  C3 (amended). For a locale with no chain entry, \<open>findAvailableLanguage\<close> returns a single
  locale: the base when the base has a chain entry, the locale itself otherwise; with the
  chain that \<open>setFallbackChain\<close> installs on the fresh object it returns every locale
  unchanged (no base of a locale is a key of that chain).
\<close>

theorem findAvailableLanguage_without_entry:
  "(fallbackChain s l = None \<longrightarrow>
      findAvailableLanguage s l = (if fallbackChain s (baseOf l) \<noteq> None then baseOf l else l))
   \<and> (fallbackChain s = Map.empty \<longrightarrow> findAvailableLanguage (setFallbackChain s) l = l)"
proof (intro conjI impI)
  assume "fallbackChain s l = None"
  then show "findAvailableLanguage s l = (if fallbackChain s (baseOf l) \<noteq> None then baseOf l else l)"
    by (simp add: findAvailableLanguage_def)
next
  assume e: "fallbackChain s = Map.empty"
  have "fallbackChain (setFallbackChain s) (baseOf l) = None"
    using baseOf_no_dash[of l] by (auto simp: setFallbackChain_def e)
  then show "findAvailableLanguage (setFallbackChain s) l = l"
    by (simp add: findAvailableLanguage_def Let_def)
qed

theorem findAvailableLanguage_without_entry_witness:
  "fallbackChain (initial None Map.empty True 0 False) ''fr-CA'' = None
   \<and> fallbackChain (initial None Map.empty True 0 False) = Map.empty
   \<and> findAvailableLanguage (initial None Map.empty True 0 False) ''fr-CA'' = ''fr-CA''
   \<and> findAvailableLanguage (setFallbackChain (initial None Map.empty True 0 False)) ''fr-CA''
       = ''fr-CA''"
  using findAvailableLanguage_without_entry
    [of "initial None Map.empty True 0 False" "''fr-CA''"]
  by (simp add: initial_def baseOf_def)

text \<open>
  C1 (the code at the failing input). An entry stored with \<open>__timestamp = now - ttl - 1\<close> is
  read as a hit: \<open>loadFromLocalStorage\<close> returns \<open>true\<close> and installs the entry as the
  active translations and in the memory cache. Neither reserved field is ever read.
\<close>

theorem loadFromLocalStorage_ignores_ttl:
  "fst (loadFromLocalStorage
         (s\<lparr>durable := (durable s)(lng \<mapsto> JsonText
              (AList.update ''__ttl'' (JNum ttl)
                (AList.update ''__timestamp'' (JNum (clock s - ttl - 1)) r)))\<rparr>) lng)
   \<and> activeTranslations (snd (loadFromLocalStorage
         (s\<lparr>durable := (durable s)(lng \<mapsto> JsonText
              (AList.update ''__ttl'' (JNum ttl)
                (AList.update ''__timestamp'' (JNum (clock s - ttl - 1)) r)))\<rparr>) lng))
       = AList.update ''__ttl'' (JNum ttl)
           (AList.update ''__timestamp'' (JNum (clock s - ttl - 1)) r)
   \<and> fst (loadFromLocalStorage
         ((saveToLocalStorage
            ((initial None Map.empty True 0 False)
               \<lparr>activeTranslations := [(''greeting'', JStr ''hi'')]\<rparr>) ''en'')
          \<lparr>clock := ttl30days + 1\<rparr>) ''en'')"
  by (simp add: loadFromLocalStorage_def saveToLocalStorage_def initial_def)

text \<open>
  C4 (as stated, refuted). After \<open>put\<close> of \<open>{greeting: "hi"}\<close> at time 1000, \<open>get\<close> is a hit
  whose resource set has the own property \<open>__timestamp\<close>, which \<open>R\<close> has not: the two are
  not deep-equal.
\<close>

theorem cache_round_trip_counterexample:
  "\<not> (map_of (activeTranslations (snd (loadFromLocalStorage
          (saveToLocalStorage
            ((initial None Map.empty True 1000 False)
               \<lparr>activeTranslations := [(''greeting'', JStr ''hi'')]\<rparr>) ''en'') ''en'')))
       = map_of [(''greeting'', JStr ''hi'')])"
proof
  assume "map_of (activeTranslations (snd (loadFromLocalStorage
          (saveToLocalStorage
            ((initial None Map.empty True 1000 False)
               \<lparr>activeTranslations := [(''greeting'', JStr ''hi'')]\<rparr>) ''en'') ''en'')))
       = map_of [(''greeting'', JStr ''hi'')]"
  then have "map_of (activeTranslations (snd (loadFromLocalStorage
          (saveToLocalStorage
            ((initial None Map.empty True 1000 False)
               \<lparr>activeTranslations := [(''greeting'', JStr ''hi'')]\<rparr>) ''en'') ''en''))) ''__timestamp''
       = map_of [(''greeting'', JStr ''hi'')] ''__timestamp''"
    by (rule fun_cong)
  then show False
    by (simp add: loadFromLocalStorage_def saveToLocalStorage_def initial_def cacheData_def)
qed

text \<open>
  C4 (amended). When the durable write succeeds, \<open>put\<close> followed at once by \<open>get\<close> is a hit
  whose resource set is \<open>R\<close> with the two reserved fields set: it agrees with \<open>R\<close> on every
  other key, \<open>__timestamp\<close> is the time of the write and \<open>__ttl\<close> is 30 days.
\<close>

theorem cache_round_trip_reserved_fields:
  assumes "storageWritable s"
  shows "fst (loadFromLocalStorage (saveToLocalStorage s lng) lng)
     \<and> activeTranslations (snd (loadFromLocalStorage (saveToLocalStorage s lng) lng)) = cacheData s
     \<and> cache (snd (loadFromLocalStorage (saveToLocalStorage s lng) lng)) lng = Some (cacheData s)
     \<and> (\<forall>k. k \<noteq> ''__timestamp'' \<and> k \<noteq> ''__ttl'' \<longrightarrow>
           map_of (cacheData s) k = map_of (activeTranslations s) k)
     \<and> map_of (cacheData s) ''__timestamp'' = Some (JNum (clock s))
     \<and> map_of (cacheData s) ''__ttl'' = Some (JNum (30 * 24 * 60 * 60 * 1000))"
  using assms
  by (simp add: loadFromLocalStorage_def saveToLocalStorage_def cacheData_def update_conv'
      ttl30days_def)

theorem cache_round_trip_reserved_fields_witness:
  "storageWritable ((initial None Map.empty True 1000 False)
       \<lparr>activeTranslations := [(''greeting'', JStr ''hi'')]\<rparr>)
   \<and> activeTranslations (snd (loadFromLocalStorage
        (saveToLocalStorage
          ((initial None Map.empty True 1000 False)
             \<lparr>activeTranslations := [(''greeting'', JStr ''hi'')]\<rparr>) ''en'') ''en''))
      = [(''greeting'', JStr ''hi''), (''__timestamp'', JNum 1000), (''__ttl'', JNum 2592000000)]
   \<and> map_of (cacheData ((initial None Map.empty True 1000 False)
          \<lparr>activeTranslations := [(''greeting'', JStr ''hi'')]\<rparr>)) ''greeting''
      = Some (JStr ''hi'')"
  using cache_round_trip_reserved_fields
    [of "(initial None Map.empty True 1000 False)
           \<lparr>activeTranslations := [(''greeting'', JStr ''hi'')]\<rparr>" "''en''"]
  by (simp add: initial_def cacheData_def ttl30days_def)

section \<open>The placeholder scanner\<close>








lemma template_wf_result:
  "templateCache_wf s \<Longrightarrow> fst (template s str d) = compile str d"
  by (auto simp: template_def templateCache_wf_def Let_def split: option.splits)

lemma template_wf_preserved:
  "templateCache_wf s \<Longrightarrow> templateCache_wf (snd (template s str d))"
  by (auto simp: template_def templateCache_wf_def Let_def split: option.splits)











text \<open>
  C10 (as stated, refuted). A key that is present with the empty string as its value does
  not give the stored string: the lookup returns the key.
\<close>

theorem t_empty_string_counterexample:
  "map_of (activeTranslations ((initial None Map.empty True 0 False)
        \<lparr>activeTranslations := [(''greeting'', JStr [])]\<rparr>)) ''greeting'' = Some (JStr [])
   \<and> fst (t ((initial None Map.empty True 0 False)
        \<lparr>activeTranslations := [(''greeting'', JStr [])]\<rparr>) ''greeting'' [])
      = Inr (Json (JStr ''greeting''))
   \<and> fst (t ((initial None Map.empty True 0 False)
        \<lparr>activeTranslations := [(''greeting'', JStr [])]\<rparr>) ''greeting'' [])
      \<noteq> Inr (Json (JStr []))"
  by (simp add: t_def getProperty_def initial_def)

text \<open>
  C10 (amended). For every key whose stored value is truthy (a string that is not empty,
  in particular), the lookup with the empty substitution map returns the stored value as
  it is, placeholders included, and changes nothing.
\<close>

theorem t_no_substitutions_verbatim:
  "(map_of (activeTranslations s) key = Some v \<and> truthy v \<longrightarrow> t s key [] = (Inr (Json v), s))
   \<and> (map_of (activeTranslations s) key = Some (JStr str) \<and> str \<noteq> [] \<longrightarrow>
        t s key [] = (Inr (Json (JStr str)), s))"
  by (simp add: t_def getProperty_def)

theorem t_no_substitutions_verbatim_witness:
  "map_of (activeTranslations (useMinimalFallbackTranslations (initial None Map.empty True 0 False)))
      ''questionTemplate'' = Some (JStr ''{username}? Will you be my love?'')
   \<and> truthy (JStr ''{username}? Will you be my love?'')
   \<and> ''{username}? Will you be my love?'' \<noteq> []
   \<and> fst (t (useMinimalFallbackTranslations (initial None Map.empty True 0 False))
        ''questionTemplate'' []) = Inr (Json (JStr ''{username}? Will you be my love?''))"
  using t_no_substitutions_verbatim
    [of "useMinimalFallbackTranslations (initial None Map.empty True 0 False)"
        "''questionTemplate''" "JStr ''{username}? Will you be my love?''"
        "''{username}? Will you be my love?''"]
  by (simp add: useMinimalFallbackTranslations_def minimalFallback_def initial_def)

section \<open>Runs of the event loop\<close>

lemma run_append:
  "run s (es @ fs) = (case run s es of None \<Rightarrow> None | Some s' \<Rightarrow> run s' fs)"
  by (induction es arbitrary: s) (auto split: option.splits)

section \<open>Deduplication of loads\<close>

lemma races_wf_coord: "coord s' = coord s \<Longrightarrow> races_wf s' = races_wf s"
  by (simp add: coord_def races_wf_def)

lemma coord_enqueue [simp]: "coord (enqueue j s) = coord s"
  by (simp add: coord_def enqueue_def)

lemma coord_loadTranslations [simp]: "coord (loadTranslations s l own) = coord s"
  by (simp add: coord_def loadTranslations_def enqueue_def split: option.splits)

lemma coord_loadTranslations_catch [simp]: "coord (loadTranslations_catch s l own) = coord s"
proof -
  have "coord (loadTranslations s (baseOf l) (Outer l own)) = coord s" by simp
  then show ?thesis
    by (simp add: loadTranslations_catch_def Let_def coord_def enqueue_def split: option.splits)
qed

lemma coord_loadTranslations_response [simp]:
  "coord (loadTranslations_response s l own resp) = coord s"
proof (cases resp)
  case (Ok r)
  then show ?thesis by (simp add: loadTranslations_response_def coord_def enqueue_def)
qed (simp_all add: loadTranslations_response_def)

lemma coord_saveToLocalStorage [simp]: "coord (saveToLocalStorage s l) = coord s"
  by (simp add: coord_def saveToLocalStorage_def)

lemma coord_init_finish [simp]: "coord (init_finish s) = coord s"
  by (simp add: coord_def init_finish_def preloadPopularLanguages_def)

lemma coord_preload_each [simp]: "coord (preload_each s ls) = coord s"
proof (induction ls arbitrary: s)
  case Nil
  show ?case by simp
next
  case (Cons l ls)
  have "coord (loadTranslations (s\<lparr>preloadedLangs := preloadedLangs s @ [l]\<rparr>) l (Preload l))
        = coord s"
    by (simp add: coord_loadTranslations) (simp add: coord_def)
  then show ?case using Cons by simp
qed

lemma races_wf_handle:
  "races_wf s \<Longrightarrow> loadingPromises s l = Some p \<Longrightarrow>
   \<exists>r. races s p = Some r \<and> race_lang r = l \<and> settled r = None"
  unfolding races_wf_def by blast

lemma races_wf_pending:
  "races_wf s \<Longrightarrow> races s p = Some r \<Longrightarrow> settled r = None \<Longrightarrow>
   loadingPromises s (race_lang r) = Some p"
  unfolding races_wf_def by blast

lemma races_wf_bound: "races_wf s \<Longrightarrow> races s p = Some r \<Longrightarrow> p < nextRace s"
  unfolding races_wf_def by blast

lemma races_wf_distinct: "races_wf s \<Longrightarrow> distinct (deleted s)"
  unfolding races_wf_def by blast

lemma races_wf_deleted:
  "races_wf s \<Longrightarrow> p \<in> set (deleted s) \<longleftrightarrow> (\<exists>r out. races s p = Some r \<and> settled r = Some out)"
  unfolding races_wf_def by blast

lemma races_wfI:
  assumes "\<And>l p. loadingPromises s l = Some p \<Longrightarrow>
            \<exists>r. races s p = Some r \<and> race_lang r = l \<and> settled r = None"
    and "\<And>p r. races s p = Some r \<Longrightarrow> settled r = None \<Longrightarrow>
            loadingPromises s (race_lang r) = Some p"
    and "\<And>p r. races s p = Some r \<Longrightarrow> p < nextRace s"
    and "distinct (deleted s)"
    and "\<And>p. p \<in> set (deleted s) \<longleftrightarrow> (\<exists>r out. races s p = Some r \<and> settled r = Some out)"
  shows "races_wf s"
  unfolding races_wf_def using assms by blast

text \<open>A caller that joins a registered promise.\<close>

lemma races_wf_join:
  assumes wf: "races_wf s" and r: "races s p = Some r"
  shows "races_wf (s\<lparr>races := (races s)(p \<mapsto> r\<lparr>waiters := waiters r @ [c]\<rparr>)\<rparr>)"
    (is "races_wf ?s'")
proof (rule races_wfI)
  fix l q assume "loadingPromises ?s' l = Some q"
  then have "loadingPromises s l = Some q" by simp
  then obtain r2 where "races s q = Some r2" "race_lang r2 = l" "settled r2 = None"
    using races_wf_handle[OF wf] by blast
  then show "\<exists>r2. races ?s' q = Some r2 \<and> race_lang r2 = l \<and> settled r2 = None"
    using r by (cases "q = p") auto
next
  fix q r2 assume a: "races ?s' q = Some r2" "settled r2 = None"
  then obtain r3 where r3: "races s q = Some r3" "settled r3 = None" "race_lang r3 = race_lang r2"
    using r by (cases "q = p") auto
  have "loadingPromises s (race_lang r3) = Some q"
    using races_wf_pending[OF wf r3(1) r3(2)] .
  then show "loadingPromises ?s' (race_lang r2) = Some q" using r3 by simp
next
  fix q r2 assume "races ?s' q = Some r2"
  then obtain r3 where "races s q = Some r3" using r by (cases "q = p") auto
  then show "q < nextRace ?s'" using races_wf_bound[OF wf] by simp
next
  show "distinct (deleted ?s')" using races_wf_distinct[OF wf] by simp
next
  fix q
  have "(\<exists>r2 out. races ?s' q = Some r2 \<and> settled r2 = Some out)
      = (\<exists>r3 out. races s q = Some r3 \<and> settled r3 = Some out)"
    using r by (cases "q = p") auto
  then show "q \<in> set (deleted ?s') \<longleftrightarrow> (\<exists>r2 out. races ?s' q = Some r2 \<and> settled r2 = Some out)"
    using races_wf_deleted[OF wf, of q] by simp
qed

text \<open>A new race, registered for a language that has no registered promise.\<close>

lemma races_wf_create:
  assumes wf: "races_wf s" and none: "loadingPromises s l = None"
  shows "races_wf (s\<lparr>races := (races s)(nextRace s \<mapsto> \<lparr>race_lang = l, settled = None, waiters = [c]\<rparr>),
                     loadingPromises := (loadingPromises s)(l \<mapsto> nextRace s),
                     nextRace := Suc (nextRace s)\<rparr>)"
    (is "races_wf ?s'")
proof (rule races_wfI)
  have fresh: "races s (nextRace s) = None"
    using races_wf_bound[OF wf, of "nextRace s"] by (cases "races s (nextRace s)") auto
  {
    fix la q assume a: "loadingPromises ?s' la = Some q"
    show "\<exists>r2. races ?s' q = Some r2 \<and> race_lang r2 = la \<and> settled r2 = None"
    proof (cases "la = l")
      case True
      then show ?thesis using a by simp
    next
      case False
      then have h: "loadingPromises s la = Some q" using a by simp
      then obtain r2 where r2: "races s q = Some r2" "race_lang r2 = la" "settled r2 = None"
        using races_wf_handle[OF wf] by blast
      then have "q \<noteq> nextRace s" using fresh by auto
      then show ?thesis using r2 by simp
    qed
  next
    fix q r2 assume a: "races ?s' q = Some r2" "settled r2 = None"
    show "loadingPromises ?s' (race_lang r2) = Some q"
    proof (cases "q = nextRace s")
      case True
      then show ?thesis using a by auto
    next
      case False
      then have r2: "races s q = Some r2" using a by simp
      have h: "loadingPromises s (race_lang r2) = Some q"
        using races_wf_pending[OF wf r2 a(2)] .
      then have "race_lang r2 \<noteq> l" using none by auto
      then show ?thesis using h by simp
    qed
  next
    fix q r2 assume a: "races ?s' q = Some r2"
    show "q < nextRace ?s'"
    proof (cases "q = nextRace s")
      case True
      then show ?thesis by simp
    next
      case False
      then have "races s q = Some r2" using a by simp
      then show ?thesis using races_wf_bound[OF wf] by (simp add: less_Suc_eq)
    qed
  next
    show "distinct (deleted ?s')" using races_wf_distinct[OF wf] by simp
  next
    fix q
    have "(\<exists>r2 out. races ?s' q = Some r2 \<and> settled r2 = Some out)
        = (\<exists>r3 out. races s q = Some r3 \<and> settled r3 = Some out)"
      using fresh by (cases "q = nextRace s") auto
    then show "q \<in> set (deleted ?s') \<longleftrightarrow> (\<exists>r2 out. races ?s' q = Some r2 \<and> settled r2 = Some out)"
      using races_wf_deleted[OF wf, of q] by simp
  }
qed

text \<open>The first delivery to a race: it settles, and its \<open>finally\<close> block runs.\<close>

lemma races_wf_settle:
  assumes wf: "races_wf s" and r: "races s p = Some r" and pend: "settled r = None"
  shows "races_wf (s\<lparr>races := (races s)(p \<mapsto> r\<lparr>settled := Some out\<rparr>),
                     loadingPromises := (loadingPromises s)(race_lang r := None),
                     deleted := deleted s @ [p]\<rparr>)"
    (is "races_wf ?s'")
proof (rule races_wfI)
  have hp: "loadingPromises s (race_lang r) = Some p"
    using races_wf_pending[OF wf r pend] .
  have notdel: "p \<notin> set (deleted s)"
    using races_wf_deleted[OF wf, of p] r pend by auto
  {
    fix la q assume a: "loadingPromises ?s' la = Some q"
    then have la: "la \<noteq> race_lang r" and h: "loadingPromises s la = Some q"
      by (auto split: if_splits)
    obtain r2 where r2: "races s q = Some r2" "race_lang r2 = la" "settled r2 = None"
      using races_wf_handle[OF wf h] by blast
    then have "q \<noteq> p" using la r by auto
    then show "\<exists>r2. races ?s' q = Some r2 \<and> race_lang r2 = la \<and> settled r2 = None"
      using r2 by simp
  next
    fix q r2 assume a: "races ?s' q = Some r2" "settled r2 = None"
    then have qp: "q \<noteq> p" by auto
    then have r2: "races s q = Some r2" using a by simp
    have h: "loadingPromises s (race_lang r2) = Some q"
      using races_wf_pending[OF wf r2 a(2)] .
    then have "race_lang r2 \<noteq> race_lang r" using hp qp by auto
    then show "loadingPromises ?s' (race_lang r2) = Some q" using h by simp
  next
    fix q r2 assume a: "races ?s' q = Some r2"
    then obtain r3 where "races s q = Some r3" using r by (cases "q = p") auto
    then show "q < nextRace ?s'" using races_wf_bound[OF wf] by simp
  next
    show "distinct (deleted ?s')" using races_wf_distinct[OF wf] notdel by simp
  next
    fix q
    show "q \<in> set (deleted ?s') \<longleftrightarrow> (\<exists>r2 out. races ?s' q = Some r2 \<and> settled r2 = Some out)"
    proof (cases "q = p")
      case True
      then show ?thesis by simp
    next
      case False
      then show ?thesis using races_wf_deleted[OF wf, of q] by simp
    qed
  }
qed

lemma races_wf_loadTranslationsWithTimeout:
  assumes wf: "races_wf s"
  shows "races_wf (loadTranslationsWithTimeout s l c)"
proof (cases "loadingPromises s l")
  case (Some p)
  then obtain r where r: "races s p = Some r" "race_lang r = l" "settled r = None"
    using races_wf_handle[OF wf] by blast
  have "loadTranslationsWithTimeout s l c = s\<lparr>races := (races s)(p \<mapsto> r\<lparr>waiters := waiters r @ [c]\<rparr>)\<rparr>"
    using Some r by (simp add: loadTranslationsWithTimeout_def)
  then show ?thesis using races_wf_join[OF wf r(1)] by simp
next
  case None
  let ?s1 = "s\<lparr>timers := timers s @ [(clock s + loadTimeout, TimeoutTimer (nextRace s) l)],
               nextRace := Suc (nextRace s)\<rparr>"
  let ?s2 = "loadTranslations ?s1 l (Race (nextRace s))"
  let ?s3 = "?s2\<lparr>races := (races ?s2)(nextRace s \<mapsto> \<lparr>race_lang = l, settled = None, waiters = [c]\<rparr>),
           loadingPromises := (loadingPromises ?s2)(l \<mapsto> nextRace s)\<rparr>"
  let ?t = "s\<lparr>races := (races s)(nextRace s \<mapsto> \<lparr>race_lang = l, settled = None, waiters = [c]\<rparr>),
                     loadingPromises := (loadingPromises s)(l \<mapsto> nextRace s),
                     nextRace := Suc (nextRace s)\<rparr>"
  have "coord ?s2 = coord ?s1" by (rule coord_loadTranslations)
  then have "coord ?s3 = coord ?t" by (simp add: coord_def)
  moreover have "loadTranslationsWithTimeout s l c = ?s3"
    using None by (simp add: loadTranslationsWithTimeout_def Let_def)
  ultimately show ?thesis using races_wf_create[OF wf None, of c] races_wf_coord by metis
qed

lemma races_wf_run_job:
  assumes wf: "races_wf s"
  shows "races_wf (run_job s j)"
proof (cases j)
  case (Deliver own out)
  show ?thesis
  proof (cases own)
    case (Race p)
    show ?thesis
    proof (cases "races s p")
      case None
      then show ?thesis using wf Deliver Race by simp
    next
      case (Some r)
      show ?thesis
      proof (cases "settled r")
        case None
        let ?t = "s\<lparr>races := (races s)(p \<mapsto> r\<lparr>settled := Some out\<rparr>),
                     loadingPromises := (loadingPromises s)(race_lang r := None),
                     deleted := deleted s @ [p]\<rparr>"
        have "coord (run_job s j) = coord ?t"
          using Deliver Race Some None by (simp add: coord_def)
        then show ?thesis using races_wf_settle[OF wf Some None, of out] races_wf_coord by metis
      next
        case (Some first)
        then show ?thesis using wf Deliver Race \<open>races s p = Some r\<close> by simp
      qed
    qed
  next
    case (Outer l own')
    have "coord (run_job s j) = coord s"
      using Deliver Outer by (cases out) simp_all
    then show ?thesis using wf races_wf_coord by metis
  next
    case (Refresh l)
    have "coord (run_job s j) = coord s"
      using Deliver Refresh by (cases out) simp_all
    then show ?thesis using wf races_wf_coord by metis
  next
    case (Preload l)
    then show ?thesis using wf Deliver by simp
  qed
next
  case (Resume c out)
  show ?thesis
  proof (cases c)
    case (Switch_await l)
    have "coord (run_job s j) = coord s"
      using Resume Switch_await
      by (cases out) (simp_all add: showLoadingIndicator_def coord_def saveToLocalStorage_def)
    then show ?thesis using wf races_wf_coord by metis
  next
    case Init_await_first
    show ?thesis
    proof (cases out)
      case Fulfilled
      then have "coord (run_job s j) = coord s" using Resume Init_await_first by simp
      then show ?thesis using wf races_wf_coord by metis
    next
      case (Rejected e)
      then show ?thesis
        using Resume Init_await_first races_wf_loadTranslationsWithTimeout[OF wf] by simp
    qed
  next
    case Init_await_default
    have "coord (run_job s j) = coord s"
    proof (cases out)
      case Fulfilled
      then show ?thesis using Resume Init_await_default by simp
    next
      case (Rejected e)
      have "coord (useMinimalFallbackTranslations s) = coord s"
        by (simp add: coord_def useMinimalFallbackTranslations_def)
      then show ?thesis using Resume Init_await_default Rejected by simp
    qed
    then show ?thesis using wf races_wf_coord by metis
  qed
qed

lemma races_wf_frame [simp]:
  "races_wf (s\<lparr>currentLang := cl\<rparr>) = races_wf s"
  "races_wf (s\<lparr>userLangPreference := up\<rparr>) = races_wf s"
  "races_wf (s\<lparr>microtasks := ms\<rparr>) = races_wf s"
  "races_wf (s\<lparr>timers := ts\<rparr>) = races_wf s"
  "races_wf (s\<lparr>network := nw\<rparr>) = races_wf s"
  "races_wf (s\<lparr>clock := ck\<rparr>) = races_wf s"
  "races_wf (setFallbackChain s) = races_wf s"
  "races_wf (showLoadingIndicator s b) = races_wf s"
  "races_wf (useMinimalFallbackTranslations s) = races_wf s"
  "races_wf (refreshTranslationsInBackground s l) = races_wf s"
  "races_wf (snd (loadFromLocalStorage s l)) = races_wf s"
  by (simp_all add: races_wf_def setFallbackChain_def showLoadingIndicator_def
      useMinimalFallbackTranslations_def refreshTranslationsInBackground_def
      loadFromLocalStorage_def split: option.splits stored.splits)

lemma races_wf_frame_coord [simp]:
  "races_wf (saveToLocalStorage s l) = races_wf s"
  "races_wf (init_finish s) = races_wf s"
  "races_wf (preload_each s ls) = races_wf s"
  "races_wf (loadTranslations s l own) = races_wf s"
  "races_wf (loadTranslations_response s l own resp) = races_wf s"
  "races_wf (enqueue j s) = races_wf s"
  by (rule races_wf_coord, simp)+

lemma races_wf_init: "races_wf s \<Longrightarrow> races_wf (init s nav)"
  unfolding init_def Let_def by (simp add: races_wf_loadTranslationsWithTimeout)

lemma races_wf_switchLanguage: "races_wf s \<Longrightarrow> races_wf (switchLanguage s l)"
  unfolding switchLanguage_def Let_def by (simp add: races_wf_loadTranslationsWithTimeout)

lemma races_wf_fire: "races_wf s \<Longrightarrow> races_wf (fire s tm)"
  by (cases tm) simp_all

lemma races_wf_task:
  assumes wf: "races_wf s" and tk: "task s e = Some s'"
  shows "races_wf s'"
proof (cases e)
  case (Call_init nav)
  then show ?thesis using tk races_wf_init[OF wf] by auto
next
  case (Call_switchLanguage l)
  then show ?thesis using tk races_wf_switchLanguage[OF wf] by auto
next
  case (Response i resp)
  then show ?thesis using tk wf by (auto split: if_splits)
next
  case (Tick i)
  then show ?thesis using tk wf by (auto split: if_splits simp: races_wf_fire)
next
  case (Elapse d)
  then show ?thesis using tk wf by auto
next
  case Micro
  then show ?thesis using tk by simp
qed

lemma races_wf_step:
  assumes wf: "races_wf s" and st: "step s e = Some s'"
  shows "races_wf s'"
proof (cases "microtasks s")
  case (Cons j js)
  have "races_wf (run_job (s\<lparr>microtasks := js\<rparr>) j)"
    using wf by (intro races_wf_run_job) simp
  then show ?thesis using st Cons by (auto simp: step_def split: if_splits)
next
  case Nil
  then show ?thesis using st races_wf_task[OF wf] by (simp add: step_def)
qed

lemma reachable_races_wf: "reachable s \<Longrightarrow> races_wf s"
proof (induction rule: reachable.induct)
  case (reach_start pref store writable now idle)
  show ?case by (simp add: races_wf_def initial_def)
next
  case (reach_step s e s')
  then show ?case using races_wf_step by blast
qed

lemma loadTranslationsWithTimeout_new:
  assumes "loadingPromises s lng = None" and "cache s lng = None"
  shows "loadTranslationsWithTimeout s lng c =
     s\<lparr>timers := timers s @ [(clock s + loadTimeout, TimeoutTimer (nextRace s) lng)],
       nextRace := Suc (nextRace s),
       network := network s @ [(lng, Race (nextRace s))],
       requests := requests s @ [lng],
       races := (races s)(nextRace s \<mapsto> \<lparr>race_lang = lng, settled = None, waiters = [c]\<rparr>),
       loadingPromises := (loadingPromises s)(lng \<mapsto> nextRace s)\<rparr>"
  using assms by (simp add: loadTranslationsWithTimeout_def loadTranslations_def Let_def)

lemma loadTranslationsWithTimeout_join:
  assumes "loadingPromises s lng = Some p" and "races s p = Some r" and "settled r = None"
  shows "loadTranslationsWithTimeout s lng c =
     s\<lparr>races := (races s)(p \<mapsto> r\<lparr>waiters := waiters r @ [c]\<rparr>)\<rparr>"
  using assms by (simp add: loadTranslationsWithTimeout_def)

text \<open>
  C5 (as stated, refuted). Only \<open>loadTranslationsWithTimeout\<close> keeps \<open>loadingPromises\<close>;
  the preload and the fall-back to the base language call \<open>loadTranslations\<close> directly.
  After \<open>init\<close> has loaded \<open>fr\<close> the deferred preload fetches \<open>ja\<close>, and a
  \<open>switchLanguage("ja")\<close> made while that fetch is in flight issues a second fetch of
  \<open>ja\<close>: two fetches of one locale are in flight. Likewise the fetch of \<open>fr-CA\<close> that
  fails falls back to a fetch of \<open>fr\<close>, and a \<open>switchLanguage("fr")\<close> made meanwhile
  fetches \<open>fr\<close> again.
\<close>

theorem deduplication_counterexample:
  "map_option (\<lambda>s. (requests s, network s))
     (run fresh [Call_init ''fr'', Response 0 (Ok [(''greeting'', JStr ''bonjour'')]), Micro, Micro,
                 Elapse 2000, Tick 1, Call_switchLanguage ''ja''])
   = Some ([''fr'', ''en'', ''zh-CN'', ''zh-TW'', ''ja'', ''ko'', ''ja''],
           [(''en'', Preload ''en''), (''zh-CN'', Preload ''zh-CN''), (''zh-TW'', Preload ''zh-TW''),
            (''ja'', Preload ''ja''), (''ko'', Preload ''ko''), (''ja'', Race 1)])
   \<and> map_option (\<lambda>s. (requests s, network s))
     (run fresh [Call_switchLanguage ''fr-CA'', Response 0 NetworkError, Call_switchLanguage ''fr''])
   = Some ([''fr-CA'', ''fr'', ''fr''],
           [(''fr'', Outer ''fr-CA'' (Race 0)), (''fr'', Race 1)])"
  by (simp add: fresh_def initial_def step_def init_def detectLanguage_def setFallbackChain_def
      findAvailableLanguage_def baseOf_def loadFromLocalStorage_def switchLanguage_def
      showLoadingIndicator_def loadTranslationsWithTimeout_def loadTranslations_def
      loadTranslations_response_def loadTranslations_catch_def loadTimeout_def enqueue_def
      remove_nth_def saveToLocalStorage_def cacheData_def init_finish_def
      preloadPopularLanguages_def Let_def)

text \<open>
  C5 (amended). In every state that the event loop can reach: two races of one language
  that have not settled are the same race, and the registered promises are exactly the
  races that have not settled (at most one in-flight handle of
  \<open>loadTranslationsWithTimeout\<close> per locale). Two calls of \<open>loadTranslationsWithTimeout\<close>
  in a row for a language that is neither cached nor registered issue exactly one fetch
  and wait for the same race; a call for a registered language issues none. The delivery
  that settles a race, fulfilled or rejected, removes the record of its language, logs one
  run of the \<open>finally\<close> block and resumes the waiting callers; a later delivery to the same
  race changes nothing. The \<open>finally\<close> block has run once for every settled race and
  for no other. (The loads that call \<open>loadTranslations\<close> directly, which are the preload,
  the background refresh and the fall-back to the base language, are not registered and
  not deduplicated.)
\<close>

theorem deduplication:
  assumes "reachable s"
  shows "(\<forall>p q rp rq. races s p = Some rp \<and> races s q = Some rq \<and> settled rp = None \<and>
            settled rq = None \<and> race_lang rp = race_lang rq \<longrightarrow> p = q)
     \<and> (\<forall>l p. loadingPromises s l = Some p \<longleftrightarrow>
            (\<exists>r. races s p = Some r \<and> race_lang r = l \<and> settled r = None))
     \<and> (cache s lng = None \<and> loadingPromises s lng = None \<longrightarrow>
          requests (loadTranslationsWithTimeout (loadTranslationsWithTimeout s lng c1) lng c2)
            = requests s @ [lng]
        \<and> network (loadTranslationsWithTimeout (loadTranslationsWithTimeout s lng c1) lng c2)
            = network s @ [(lng, Race (nextRace s))]
        \<and> loadingPromises (loadTranslationsWithTimeout (loadTranslationsWithTimeout s lng c1) lng c2) lng
            = Some (nextRace s)
        \<and> races (loadTranslationsWithTimeout (loadTranslationsWithTimeout s lng c1) lng c2) (nextRace s)
            = Some \<lparr>race_lang = lng, settled = None, waiters = [c1, c2]\<rparr>)
     \<and> (loadingPromises s lng \<noteq> None \<longrightarrow>
          requests (loadTranslationsWithTimeout s lng c1) = requests s
        \<and> network (loadTranslationsWithTimeout s lng c1) = network s
        \<and> loadingPromises (loadTranslationsWithTimeout s lng c1) = loadingPromises s)
     \<and> (races s p = Some r \<and> settled r = None \<longrightarrow>
          loadingPromises s (race_lang r) = Some p
        \<and> loadingPromises (run_job s (Deliver (Race p) out)) (race_lang r) = None
        \<and> deleted (run_job s (Deliver (Race p) out)) = deleted s @ [p]
        \<and> microtasks (run_job s (Deliver (Race p) out))
            = microtasks s @ map (\<lambda>c. Resume c out) (waiters r)
        \<and> run_job (run_job s (Deliver (Race p) out)) (Deliver (Race p) out2)
            = run_job s (Deliver (Race p) out))
     \<and> distinct (deleted s)
     \<and> (\<forall>p. p \<in> set (deleted s) \<longleftrightarrow> (\<exists>r out. races s p = Some r \<and> settled r = Some out))"
proof -
  have wf: "races_wf s" using assms by (rule reachable_races_wf)
  have one: "\<forall>p q rp rq. races s p = Some rp \<and> races s q = Some rq \<and> settled rp = None \<and>
            settled rq = None \<and> race_lang rp = race_lang rq \<longrightarrow> p = q"
  proof (intro allI impI)
    fix p q rp rq
    assume a: "races s p = Some rp \<and> races s q = Some rq \<and> settled rp = None \<and>
            settled rq = None \<and> race_lang rp = race_lang rq"
    then have "loadingPromises s (race_lang rp) = Some p" "loadingPromises s (race_lang rq) = Some q"
      using races_wf_pending[OF wf] by blast+
    then show "p = q" using a by simp
  qed
  have reg: "\<forall>l p. loadingPromises s l = Some p \<longleftrightarrow>
            (\<exists>r. races s p = Some r \<and> race_lang r = l \<and> settled r = None)"
    using races_wf_handle[OF wf] races_wf_pending[OF wf] by blast
  have two: "cache s lng = None \<and> loadingPromises s lng = None \<longrightarrow>
          requests (loadTranslationsWithTimeout (loadTranslationsWithTimeout s lng c1) lng c2)
            = requests s @ [lng]
        \<and> network (loadTranslationsWithTimeout (loadTranslationsWithTimeout s lng c1) lng c2)
            = network s @ [(lng, Race (nextRace s))]
        \<and> loadingPromises (loadTranslationsWithTimeout (loadTranslationsWithTimeout s lng c1) lng c2) lng
            = Some (nextRace s)
        \<and> races (loadTranslationsWithTimeout (loadTranslationsWithTimeout s lng c1) lng c2) (nextRace s)
            = Some \<lparr>race_lang = lng, settled = None, waiters = [c1, c2]\<rparr>"
  proof
    assume a: "cache s lng = None \<and> loadingPromises s lng = None"
    let ?s1 = "loadTranslationsWithTimeout s lng c1"
    have s1: "?s1 = s\<lparr>timers := timers s @ [(clock s + loadTimeout, TimeoutTimer (nextRace s) lng)],
       nextRace := Suc (nextRace s),
       network := network s @ [(lng, Race (nextRace s))],
       requests := requests s @ [lng],
       races := (races s)(nextRace s \<mapsto> \<lparr>race_lang = lng, settled = None, waiters = [c1]\<rparr>),
       loadingPromises := (loadingPromises s)(lng \<mapsto> nextRace s)\<rparr>"
      using a by (simp add: loadTranslationsWithTimeout_new)
    have "loadingPromises ?s1 lng = Some (nextRace s)"
      and "races ?s1 (nextRace s) = Some \<lparr>race_lang = lng, settled = None, waiters = [c1]\<rparr>"
      by (simp_all add: s1)
    then have "loadTranslationsWithTimeout ?s1 lng c2 =
        ?s1\<lparr>races := (races ?s1)(nextRace s \<mapsto>
            \<lparr>race_lang = lng, settled = None, waiters = [c1]\<rparr>\<lparr>waiters := [c1] @ [c2]\<rparr>)\<rparr>"
      using loadTranslationsWithTimeout_join[of ?s1 lng "nextRace s"
          "\<lparr>race_lang = lng, settled = None, waiters = [c1]\<rparr>" c2]
      by simp
    then show "requests (loadTranslationsWithTimeout ?s1 lng c2) = requests s @ [lng]
        \<and> network (loadTranslationsWithTimeout ?s1 lng c2) = network s @ [(lng, Race (nextRace s))]
        \<and> loadingPromises (loadTranslationsWithTimeout ?s1 lng c2) lng = Some (nextRace s)
        \<and> races (loadTranslationsWithTimeout ?s1 lng c2) (nextRace s)
            = Some \<lparr>race_lang = lng, settled = None, waiters = [c1, c2]\<rparr>"
      by (simp add: s1)
  qed
  have join: "loadingPromises s lng \<noteq> None \<longrightarrow>
          requests (loadTranslationsWithTimeout s lng c1) = requests s
        \<and> network (loadTranslationsWithTimeout s lng c1) = network s
        \<and> loadingPromises (loadTranslationsWithTimeout s lng c1) = loadingPromises s"
  proof
    assume "loadingPromises s lng \<noteq> None"
    then obtain q where q: "loadingPromises s lng = Some q" by auto
    then obtain rq where "races s q = Some rq" "settled rq = None"
      using races_wf_handle[OF wf] by blast
    then show "requests (loadTranslationsWithTimeout s lng c1) = requests s
        \<and> network (loadTranslationsWithTimeout s lng c1) = network s
        \<and> loadingPromises (loadTranslationsWithTimeout s lng c1) = loadingPromises s"
      using q by (simp add: loadTranslationsWithTimeout_join)
  qed
  have settle: "races s p = Some r \<and> settled r = None \<longrightarrow>
          loadingPromises s (race_lang r) = Some p
        \<and> loadingPromises (run_job s (Deliver (Race p) out)) (race_lang r) = None
        \<and> deleted (run_job s (Deliver (Race p) out)) = deleted s @ [p]
        \<and> microtasks (run_job s (Deliver (Race p) out))
            = microtasks s @ map (\<lambda>c. Resume c out) (waiters r)
        \<and> run_job (run_job s (Deliver (Race p) out)) (Deliver (Race p) out2)
            = run_job s (Deliver (Race p) out)"
    using races_wf_pending[OF wf, of p r] by simp
  show ?thesis
    using one reg two join settle races_wf_distinct[OF wf] races_wf_deleted[OF wf] by blast
qed

theorem deduplication_witness:
  "reachable (init fresh ''ja'')
   \<and> cache (init fresh ''ja'') ''ko'' = None \<and> loadingPromises (init fresh ''ja'') ''ko'' = None
   \<and> requests (init fresh ''ja'') = [''ja'']
   \<and> requests (loadTranslationsWithTimeout
        (loadTranslationsWithTimeout (init fresh ''ja'') ''ko'' (Switch_await ''ko''))
        ''ko'' (Switch_await ''ko'')) = [''ja'', ''ko'']
   \<and> loadingPromises (init fresh ''ja'') ''ja'' = Some 0
   \<and> requests (loadTranslationsWithTimeout (init fresh ''ja'') ''ja'' (Switch_await ''ja''))
        = [''ja'']
   \<and> races (init fresh ''ja'') 0
        = Some \<lparr>race_lang = ''ja'', settled = None, waiters = [Init_await_first]\<rparr>
   \<and> loadingPromises (run_job (init fresh ''ja'') (Deliver (Race 0) Fulfilled)) ''ja'' = None
   \<and> deleted (run_job (init fresh ''ja'') (Deliver (Race 0) Fulfilled)) = [0]"
proof -
  have st: "step fresh (Call_init ''ja'') = Some (init fresh ''ja'')"
    by (simp add: step_def fresh_def initial_def)
  have r: "reachable (init fresh ''ja'')"
    using reachable.reach_step[OF reachable.reach_start st[unfolded fresh_def]]
    by (simp add: fresh_def)
  have v: "init fresh ''ja'' =
     fresh\<lparr>fallbackChain := [''zh-CN'' \<mapsto> [''zh-CN'', ''zh''], ''zh-TW'' \<mapsto> [''zh-TW'', ''zh''],
              ''en-US'' \<mapsto> [''en-US'', ''en''], ''en-GB'' \<mapsto> [''en-GB'', ''en'']],
           currentLang := ''ja'',
           timers := [(3000, TimeoutTimer 0 ''ja'')], nextRace := 1,
           network := [(''ja'', Race 0)], requests := [''ja''],
           races := [0 \<mapsto> \<lparr>race_lang = ''ja'', settled = None, waiters = [Init_await_first]\<rparr>],
           loadingPromises := [''ja'' \<mapsto> 0]\<rparr>"
    by (simp add: init_def detectLanguage_def fresh_def initial_def setFallbackChain_def findAvailableLanguage_def
        baseOf_def loadFromLocalStorage_def loadTranslationsWithTimeout_def loadTranslations_def
        loadTimeout_def Let_def)
  have f: "cache (init fresh ''ja'') ''ko'' = None"
    "loadingPromises (init fresh ''ja'') ''ko'' = None"
    "requests (init fresh ''ja'') = [''ja'']"
    "loadingPromises (init fresh ''ja'') ''ja'' = Some 0"
    "races (init fresh ''ja'') 0
       = Some \<lparr>race_lang = ''ja'', settled = None, waiters = [Init_await_first]\<rparr>"
    "deleted (init fresh ''ja'') = []"
    unfolding v by (simp_all add: fresh_def initial_def)
  show ?thesis
    using r f deduplication[OF r, of "''ko''" "Switch_await ''ko''" "Switch_await ''ko''" 0
        "\<lparr>race_lang = ''ja'', settled = None, waiters = [Init_await_first]\<rparr>" Fulfilled Fulfilled]
      deduplication[OF r, of "''ja''" "Switch_await ''ja''" "Switch_await ''ja''" 0
        "\<lparr>race_lang = ''ja'', settled = None, waiters = [Init_await_first]\<rparr>" Fulfilled Fulfilled]
    by simp
qed

section \<open>A response that arrives after the timeout\<close>

lemma late_state:
  "run fresh [Call_switchLanguage ''en'', Elapse 3000, Tick 0, Micro, Micro] =
   Some (fresh\<lparr>currentLang := ''en'', userLangPreference := Some ''en'', clock := 3000,
           nextRace := 1, network := [(''en'', Race 0)], requests := [''en''],
           races := [0 \<mapsto> \<lparr>race_lang = ''en'', settled = Some (Rejected (Timeout ''en'')),
                                waiters = [Switch_await ''en'']\<rparr>],
           deleted := [0]\<rparr>)"
  by (simp add: fresh_def initial_def step_def switchLanguage_def showLoadingIndicator_def
      loadTranslationsWithTimeout_def loadTranslations_def loadTimeout_def enqueue_def
      remove_nth_def Let_def)

text \<open>
  C2 (as stated, refuted). \<open>switchLanguage("en")\<close> on the fresh page times out after 3000 ms:
  the race is rejected, the caller has resumed, the translations are still empty and the
  memory cache has no entry. The response that arrives afterwards is not discarded: it
  assigns the active translations and writes the memory cache.
\<close>

theorem late_response_counterexample:
  "map_option (\<lambda>s. (map_option settled (races s 0), microtasks s, activeTranslations s, cache s ''en''))
      (run fresh [Call_switchLanguage ''en'', Elapse 3000, Tick 0, Micro, Micro])
     = Some (Some (Some (Rejected (Timeout ''en''))), [], [], None)
   \<and> map_option (\<lambda>s. (map_option settled (races s 0), microtasks s, activeTranslations s, cache s ''en''))
      (run fresh [Call_switchLanguage ''en'', Elapse 3000, Tick 0, Micro, Micro,
                  Response 0 (Ok [(''greeting'', JStr ''hello'')]), Micro])
     = Some (Some (Some (Rejected (Timeout ''en''))), [],
             [(''greeting'', JStr ''hello'')], Some [(''greeting'', JStr ''hello'')])"
  by (simp add: fresh_def initial_def step_def switchLanguage_def showLoadingIndicator_def
      loadTranslationsWithTimeout_def loadTranslations_def loadTranslations_response_def
      loadTimeout_def enqueue_def remove_nth_def Let_def)

text \<open>
  C2 (amended). For every fetch whose race ended in a timeout, a successful response that
  arrives afterwards cannot change the outcome: the race stays rejected, the record of its
  language stays as it is, no caller is resumed and the \<open>finally\<close> block does not run
  again. But the response is not discarded: it assigns the active translations and writes
  the memory cache; nothing else changes.
\<close>

theorem late_response_after_timeout:
  assumes "microtasks s = []" and "i < length (network s)"
    and "network s ! i = (lng, Race p)"
    and "races s p = Some r" and "settled r = Some (Rejected (Timeout lng))"
  shows "run s [Response i (Ok res), Micro] =
     Some (s\<lparr>network := remove_nth i (network s), activeTranslations := res,
             cache := (cache s)(lng \<mapsto> res)\<rparr>)"
proof -
  have "step s (Response i (Ok res)) =
      Some (s\<lparr>network := remove_nth i (network s), activeTranslations := res,
              cache := (cache s)(lng \<mapsto> res), microtasks := [Deliver (Race p) Fulfilled]\<rparr>)"
    using assms by (simp add: step_def loadTranslations_response_def enqueue_def)
  moreover have "step (s\<lparr>network := remove_nth i (network s), activeTranslations := res,
              cache := (cache s)(lng \<mapsto> res), microtasks := [Deliver (Race p) Fulfilled]\<rparr>) Micro =
      Some (s\<lparr>network := remove_nth i (network s), activeTranslations := res,
              cache := (cache s)(lng \<mapsto> res)\<rparr>)"
    using assms by (simp add: step_def)
  ultimately show ?thesis by simp
qed

theorem late_response_after_timeout_witness:
  "run fresh [Call_switchLanguage ''en'', Elapse 3000, Tick 0, Micro, Micro,
              Response 0 (Ok [(''greeting'', JStr ''hello'')]), Micro]
   = Some (fresh\<lparr>currentLang := ''en'', userLangPreference := Some ''en'', clock := 3000,
           nextRace := 1, network := [], requests := [''en''],
           races := [0 \<mapsto> \<lparr>race_lang = ''en'', settled = Some (Rejected (Timeout ''en'')),
                                waiters = [Switch_await ''en'']\<rparr>],
           deleted := [0],
           activeTranslations := [(''greeting'', JStr ''hello'')],
           cache := [''en'' \<mapsto> [(''greeting'', JStr ''hello'')]]\<rparr>)"
proof -
  let ?s = "fresh\<lparr>currentLang := ''en'', userLangPreference := Some ''en'', clock := 3000,
           nextRace := 1, network := [(''en'', Race 0)], requests := [''en''],
           races := [0 \<mapsto> \<lparr>race_lang = ''en'', settled = Some (Rejected (Timeout ''en'')),
                                waiters = [Switch_await ''en'']\<rparr>],
           deleted := [0]\<rparr>"
  have "run ?s [Response 0 (Ok [(''greeting'', JStr ''hello'')]), Micro] =
     Some (?s\<lparr>network := remove_nth 0 (network ?s),
              activeTranslations := [(''greeting'', JStr ''hello'')],
              cache := (cache ?s)(''en'' \<mapsto> [(''greeting'', JStr ''hello'')])\<rparr>)"
    using late_response_after_timeout[of ?s 0 "''en''" 0
        "\<lparr>race_lang = ''en'', settled = Some (Rejected (Timeout ''en'')),
          waiters = [Switch_await ''en'']\<rparr>" "[(''greeting'', JStr ''hello'')]"]
    by (simp add: fresh_def initial_def)
  then have "run fresh ([Call_switchLanguage ''en'', Elapse 3000, Tick 0, Micro, Micro] @
              [Response 0 (Ok [(''greeting'', JStr ''hello'')]), Micro]) =
     Some (?s\<lparr>network := remove_nth 0 (network ?s),
              activeTranslations := [(''greeting'', JStr ''hello'')],
              cache := (cache ?s)(''en'' \<mapsto> [(''greeting'', JStr ''hello'')])\<rparr>)"
    unfolding run_append late_state by simp
  then show ?thesis by (simp add: remove_nth_def fresh_def initial_def)
qed

section \<open>Initialisation when every fetch fails\<close>

lemma all_failed_loadTranslations:
  "all_failed s \<Longrightarrow> all_failed (loadTranslations s l own)"
  by (simp add: all_failed_def loadTranslations_def)

lemma all_failed_catch:
  "all_failed s \<Longrightarrow> all_failed (loadTranslations_catch s l own)"
  by (simp add: all_failed_def loadTranslations_catch_def loadTranslations_def enqueue_def Let_def)

lemma all_failed_response:
  "all_failed s \<Longrightarrow> failing (Response i resp) \<Longrightarrow>
   all_failed (loadTranslations_response s l own resp)"
  by (cases resp) (simp_all add: loadTranslations_response_def all_failed_catch)

lemma all_failed_preload_each:
  "all_failed s \<Longrightarrow> all_failed (preload_each s ls)"
proof (induction ls arbitrary: s)
  case Nil
  then show ?case by simp
next
  case (Cons l ls)
  have "all_failed (s\<lparr>preloadedLangs := preloadedLangs s @ [l]\<rparr>)"
    using Cons.prems by (simp add: all_failed_def)
  then have "all_failed (loadTranslations (s\<lparr>preloadedLangs := preloadedLangs s @ [l]\<rparr>) l (Preload l))"
    by (rule all_failed_loadTranslations)
  then show ?case using Cons by simp
qed

lemma all_failed_loadTranslationsWithTimeout:
  assumes "all_failed s"
  shows "all_failed (loadTranslationsWithTimeout s l c)"
proof (cases "loadingPromises s l")
  case None
  then show ?thesis using assms
    by (simp add: loadTranslationsWithTimeout_def loadTranslations_def all_failed_def Let_def)
next
  case (Some p)
  show ?thesis
  proof (cases "races s p")
    case None
    then show ?thesis using assms Some by (simp add: loadTranslationsWithTimeout_def)
  next
    case r: (Some r)
    show ?thesis
    proof (cases "settled r")
      case None
      then show ?thesis using assms Some r
        by (auto simp: loadTranslationsWithTimeout_def all_failed_def)
    next
      case out: (Some out)
      then have "out \<noteq> Fulfilled" using assms r by (auto simp: all_failed_def)
      then show ?thesis using assms Some r out
        by (simp add: loadTranslationsWithTimeout_def all_failed_def enqueue_def)
    qed
  qed
qed

lemma all_failed_run_job:
  assumes a: "all_failed s" and j: "rejection j"
  shows "all_failed (run_job s j)"
proof (cases j)
  case (Deliver own out)
  then obtain e where out: "out = Rejected e" using j by (cases out) auto
  show ?thesis
  proof (cases own)
    case (Race p)
    then show ?thesis using a Deliver out
      by (auto simp: all_failed_def list_all_iff split: option.splits)
  next
    case (Outer l own')
    then show ?thesis using a Deliver out by (simp add: all_failed_def enqueue_def)
  next
    case (Refresh l)
    then show ?thesis using a Deliver out by simp
  next
    case (Preload l)
    then show ?thesis using a Deliver by simp
  qed
next
  case (Resume c out)
  then obtain e where out: "out = Rejected e" using j by (cases out) auto
  show ?thesis
  proof (cases c)
    case (Switch_await l)
    then show ?thesis using a Resume out by (simp add: all_failed_def showLoadingIndicator_def)
  next
    case Init_await_first
    then show ?thesis using a Resume out by (simp add: all_failed_loadTranslationsWithTimeout)
  next
    case Init_await_default
    then show ?thesis using a Resume out
      by (simp add: all_failed_def init_finish_def preloadPopularLanguages_def
          useMinimalFallbackTranslations_def)
  qed
qed

lemma all_failed_fire:
  assumes "all_failed s"
  shows "all_failed (fire s tm)"
proof (cases tm)
  case (TimeoutTimer p l)
  then show ?thesis using assms by (simp add: all_failed_def enqueue_def)
next
  case (RefreshTimer l)
  then show ?thesis using assms by (simp add: all_failed_loadTranslations)
next
  case (PreloadTimer ls)
  then show ?thesis using assms by (simp add: all_failed_preload_each)
qed

lemma all_failed_step:
  assumes a: "all_failed s" and f: "failing e" and st: "step s e = Some s'"
  shows "all_failed s'"
proof (cases "microtasks s")
  case (Cons j js)
  then have e: "e = Micro" and s': "s' = run_job (s\<lparr>microtasks := js\<rparr>) j"
    using st by (auto simp: step_def split: if_splits)
  have "all_failed (s\<lparr>microtasks := js\<rparr>)" "rejection j"
    using a Cons by (simp_all add: all_failed_def)
  then show ?thesis unfolding s' by (rule all_failed_run_job)
next
  case Nil
  then have tk: "task s e = Some s'" using st by (simp add: step_def)
  show ?thesis
  proof (cases e)
    case (Call_init nav)
    then show ?thesis using f by simp
  next
    case (Call_switchLanguage l)
    then show ?thesis using f by simp
  next
    case (Response i resp)
    have "all_failed (s\<lparr>network := remove_nth i (network s)\<rparr>)"
      using a by (simp add: all_failed_def)
    then have "all_failed (loadTranslations_response (s\<lparr>network := remove_nth i (network s)\<rparr>)
        (fst (network s ! i)) (snd (network s ! i)) resp)"
      using f Response by (intro all_failed_response) simp_all
    then show ?thesis using tk Response by (auto split: if_splits)
  next
    case (Tick i)
    have "all_failed (s\<lparr>timers := remove_nth i (timers s)\<rparr>)"
      using a by (simp add: all_failed_def)
    then have "all_failed (fire (s\<lparr>timers := remove_nth i (timers s)\<rparr>) (snd (timers s ! i)))"
      by (rule all_failed_fire)
    then show ?thesis using tk Tick by (auto split: if_splits)
  next
    case (Elapse d)
    then show ?thesis using tk a by (auto simp: all_failed_def)
  next
    case Micro
    then show ?thesis using tk by simp
  qed
qed

lemma all_failed_run:
  "all_failed s \<Longrightarrow> list_all failing es \<Longrightarrow> run s es = Some s' \<Longrightarrow> all_failed s'"
proof (induction es arbitrary: s)
  case Nil
  then show ?case by simp
next
  case (Cons e es)
  then obtain s1 where s1: "step s e = Some s1" "run s1 es = Some s'"
    by (auto split: option.splits)
  have "all_failed s1" using Cons.prems(1,2) s1(1) all_failed_step by auto
  then show ?case using Cons.IH s1(2) Cons.prems(2) by auto
qed

text \<open>\<open>init\<close> on the fresh object, when the durable cache has no entry that parses.\<close>

lemma init_miss:
  assumes "\<forall>res. store (detectLanguage (setFallbackChain (initial pref store w now idle)) nav)
             \<noteq> Some (JsonText res)"
  shows "init (initial pref store w now idle) nav =
     (setFallbackChain (initial pref store w now idle))
       \<lparr>currentLang := detectLanguage (setFallbackChain (initial pref store w now idle)) nav,
        timers := [(now + 3000, TimeoutTimer 0
            (detectLanguage (setFallbackChain (initial pref store w now idle)) nav))],
        nextRace := 1,
        network := [(detectLanguage (setFallbackChain (initial pref store w now idle)) nav, Race 0)],
        requests := [detectLanguage (setFallbackChain (initial pref store w now idle)) nav],
        races := [0 \<mapsto> \<lparr>race_lang = detectLanguage (setFallbackChain (initial pref store w now idle)) nav,
                           settled = None, waiters = [Init_await_first]\<rparr>],
        loadingPromises := [detectLanguage (setFallbackChain (initial pref store w now idle)) nav \<mapsto> 0]\<rparr>"
proof -
  define L where "L = detectLanguage (setFallbackChain (initial pref store w now idle)) nav"
  have miss: "loadFromLocalStorage ((setFallbackChain (initial pref store w now idle))\<lparr>currentLang := L\<rparr>) L
      = (False, (setFallbackChain (initial pref store w now idle))\<lparr>currentLang := L\<rparr>)"
    using assms unfolding L_def[symmetric]
    by (auto simp: loadFromLocalStorage_def setFallbackChain_def initial_def
        split: option.splits stored.splits)
  show ?thesis
    unfolding init_def Let_def L_def[symmetric]
    by (simp add: miss)
      (simp add: loadTranslationsWithTimeout_def loadTranslations_def Let_def
        setFallbackChain_def initial_def loadTimeout_def)
qed

lemma currentLang_init:
  "currentLang (init s nav) = detectLanguage (setFallbackChain s) nav"
  by (simp add: init_def Let_def loadFromLocalStorage_def init_finish_def
      preloadPopularLanguages_def refreshTranslationsInBackground_def
      loadTranslationsWithTimeout_def loadTranslations_def enqueue_def
      split: option.splits stored.splits)

text \<open>The schedule in which both fetches of \<open>init\<close> run into their timeouts.\<close>

lemma init_both_timeouts:
  assumes "\<forall>res. store (detectLanguage (setFallbackChain (initial pref store w now idle)) nav)
             \<noteq> Some (JsonText res)"
  shows "\<exists>s'. run (init (initial pref store w now idle) nav)
            [Elapse 3000, Tick 0, Micro, Micro, Elapse 3000, Tick 0, Micro, Micro] = Some s'
          \<and> initialized s' \<and> activeTranslations s' = minimalFallback"
  unfolding init_miss[where store = store and pref = pref and w = w and now = now
      and idle = idle and nav = nav, OF assms]
  by (simp add: step_def enqueue_def remove_nth_def loadTranslationsWithTimeout_def
      loadTranslations_def loadTimeout_def defaultLang_def init_finish_def
      preloadPopularLanguages_def useMinimalFallbackTranslations_def setFallbackChain_def
      initial_def Let_def)

text \<open>
  C6. \<open>init\<close> runs on the fresh object, and the durable cache has no entry that parses for
  the language \<open>init\<close> settles on, so that \<open>init\<close> has to fetch. If no fetch succeeds (every
  response that arrives is a failure; the timeouts may fire first) then, whenever \<open>init\<close>
  has finished, the active translations are the embedded minimal set, which has the keys
  \<open>pageTitle\<close>, \<open>greeting\<close>, \<open>confirmButton\<close> and \<open>questionTemplate\<close>. And \<open>init\<close> does
  finish: for instance when both of its fetches run into their timeouts. In any state at
  all, when the load of the default language (which \<open>init\<close> starts only after its first
  load was rejected) is rejected, the rest of \<open>init\<close> installs the minimal set and finishes.
\<close>

theorem init_total_failure:
  assumes "\<forall>res. store (currentLang (init (initial pref store w now idle) nav))
             \<noteq> Some (JsonText res)"
  shows "(list_all failing es \<and> run (init (initial pref store w now idle) nav) es = Some s \<and>
          initialized s \<longrightarrow>
            activeTranslations s = minimalFallback
          \<and> map_of (activeTranslations s) ''pageTitle'' = Some (JStr ''Will you be my sweetheart?'')
          \<and> map_of (activeTranslations s) ''greeting'' = Some (JStr ''What should I call you?'')
          \<and> map_of (activeTranslations s) ''confirmButton'' = Some (JStr ''Confirm'')
          \<and> map_of (activeTranslations s) ''questionTemplate''
               = Some (JStr ''{username}? Will you be my love?''))
     \<and> (\<exists>s'. run (init (initial pref store w now idle) nav)
            [Elapse 3000, Tick 0, Micro, Micro, Elapse 3000, Tick 0, Micro, Micro] = Some s'
          \<and> list_all failing [Elapse 3000, Tick 0, Micro, Micro, Elapse 3000, Tick 0, Micro, Micro]
          \<and> initialized s' \<and> activeTranslations s' = minimalFallback)
     \<and> (microtasks s0 = Resume Init_await_default (Rejected e) # js \<longrightarrow>
          (\<exists>s1. step s0 Micro = Some s1 \<and> initialized s1
             \<and> activeTranslations s1 = minimalFallback))"
proof -
  have last: "microtasks s0 = Resume Init_await_default (Rejected e) # js \<longrightarrow>
          (\<exists>s1. step s0 Micro = Some s1 \<and> initialized s1
             \<and> activeTranslations s1 = minimalFallback)"
    by (simp add: step_def init_finish_def preloadPopularLanguages_def
        useMinimalFallbackTranslations_def)
  have miss: "\<forall>res. store (detectLanguage (setFallbackChain (initial pref store w now idle)) nav)
             \<noteq> Some (JsonText res)"
    using assms by (simp add: currentLang_init)
  have start: "all_failed (init (initial pref store w now idle) nav)"
    unfolding init_miss[where store = store and pref = pref and w = w and now = now
        and idle = idle and nav = nav, OF miss]
    by (simp add: all_failed_def setFallbackChain_def initial_def)
  have "list_all failing es \<and> run (init (initial pref store w now idle) nav) es = Some s \<and>
          initialized s \<longrightarrow> activeTranslations s = minimalFallback"
    using all_failed_run[OF start] by (auto simp: all_failed_def)
  moreover have "activeTranslations s = minimalFallback \<longrightarrow>
            map_of (activeTranslations s) ''pageTitle'' = Some (JStr ''Will you be my sweetheart?'')
          \<and> map_of (activeTranslations s) ''greeting'' = Some (JStr ''What should I call you?'')
          \<and> map_of (activeTranslations s) ''confirmButton'' = Some (JStr ''Confirm'')
          \<and> map_of (activeTranslations s) ''questionTemplate''
               = Some (JStr ''{username}? Will you be my love?'')"
    by (simp add: minimalFallback_def)
  moreover have "list_all failing [Elapse 3000, Tick 0, Micro, Micro, Elapse 3000, Tick 0, Micro, Micro]"
    by simp
  ultimately show ?thesis
    using init_both_timeouts[where store = store and pref = pref and w = w and now = now
        and idle = idle and nav = nav, OF miss] last
    by blast
qed

theorem init_total_failure_witness:
  "list_all failing [Response 0 NetworkError, Response 0 (NotOk 404), Micro, Micro, Micro,
       Response 0 ParseError, Micro, Micro]
   \<and> map_option microtasks
       (run (init (initial None Map.empty True 0 False) ''fr-CA'')
         [Response 0 NetworkError, Response 0 (NotOk 404), Micro, Micro, Micro,
          Response 0 ParseError, Micro])
     = Some [Resume Init_await_default (Rejected (LoadFailed ''en''))]
   \<and> map_option (\<lambda>s. (initialized s, activeTranslations s, requests s))
       (run (init (initial None Map.empty True 0 False) ''fr-CA'')
         [Response 0 NetworkError, Response 0 (NotOk 404), Micro, Micro, Micro,
          Response 0 ParseError, Micro, Micro])
     = Some (True, minimalFallback, [''fr-CA'', ''fr'', ''en''])
   \<and> map_of minimalFallback ''questionTemplate'' = Some (JStr ''{username}? Will you be my love?'')"
proof -
  have v: "init (initial None Map.empty True 0 False) ''fr-CA'' =
     (setFallbackChain (initial None Map.empty True 0 False))
       \<lparr>currentLang := ''fr-CA'', timers := [(3000, TimeoutTimer 0 ''fr-CA'')], nextRace := 1,
        network := [(''fr-CA'', Race 0)], requests := [''fr-CA''],
        races := [0 \<mapsto> \<lparr>race_lang = ''fr-CA'', settled = None, waiters = [Init_await_first]\<rparr>],
        loadingPromises := [''fr-CA'' \<mapsto> 0]\<rparr>"
    by (simp add: init_def detectLanguage_def initial_def setFallbackChain_def
        findAvailableLanguage_def baseOf_def loadFromLocalStorage_def
        loadTranslationsWithTimeout_def loadTranslations_def loadTimeout_def Let_def)
  have r7: "map_option (\<lambda>s. (microtasks s, requests s))
       (run (init (initial None Map.empty True 0 False) ''fr-CA'')
         [Response 0 NetworkError, Response 0 (NotOk 404), Micro, Micro, Micro,
          Response 0 ParseError, Micro])
     = Some ([Resume Init_await_default (Rejected (LoadFailed ''en''))], [''fr-CA'', ''fr'', ''en''])"
    unfolding v
    by (simp add: step_def enqueue_def remove_nth_def loadTranslations_response_def
        loadTranslations_catch_def baseOf_def loadTranslationsWithTimeout_def
        loadTranslations_def loadTimeout_def defaultLang_def setFallbackChain_def
        initial_def Let_def)
  then obtain s7 where s7: "run (init (initial None Map.empty True 0 False) ''fr-CA'')
         [Response 0 NetworkError, Response 0 (NotOk 404), Micro, Micro, Micro,
          Response 0 ParseError, Micro] = Some s7"
       "microtasks s7 = Resume Init_await_default (Rejected (LoadFailed ''en'')) # []"
       "requests s7 = [''fr-CA'', ''fr'', ''en'']"
    by auto
  have f: "list_all failing [Response 0 NetworkError, Response 0 (NotOk 404), Micro, Micro, Micro,
       Response 0 ParseError, Micro, Micro]"
    by simp
  note th = init_total_failure[where store = Map.empty and pref = None and w = True
      and now = 0 and idle = False and nav = "''fr-CA''" and ?s0.0 = s7
      and e = "LoadFailed ''en''" and js = "[]"]
  obtain s8 where s8: "step s7 Micro = Some s8" "initialized s8"
    using th[where es = "[]" and s = s7] s7(2) by auto
  have rq: "requests s8 = requests s7"
    using s8(1) s7(2)
    by (auto simp: step_def init_finish_def preloadPopularLanguages_def
        useMinimalFallbackTranslations_def)
  have r8: "run (init (initial None Map.empty True 0 False) ''fr-CA'')
         ([Response 0 NetworkError, Response 0 (NotOk 404), Micro, Micro, Micro,
          Response 0 ParseError, Micro] @ [Micro]) = Some s8"
    unfolding run_append s7(1) using s8(1) by simp
  then have "activeTranslations s8 = minimalFallback"
    using th[where es = "[Response 0 NetworkError, Response 0 (NotOk 404), Micro,
        Micro, Micro, Response 0 ParseError, Micro, Micro]" and s = s8] s8(2) f
    by simp
  then show ?thesis using r8 s7 s8 rq f by (simp add: minimalFallback_def)
qed

section \<open>A switch of language whose load fails\<close>

lemma baseOf_idem: "baseOf (baseOf l) = baseOf l"
  by (simp add: baseOf_def)

lemma chosen_loadTranslations [simp]: "chosen (loadTranslations s l own) = chosen s"
  by (simp add: chosen_def loadTranslations_def enqueue_def split: option.splits)

lemma chosen_catch [simp]: "chosen (loadTranslations_catch s l own) = chosen s"
proof -
  have "chosen (loadTranslations s (baseOf l) (Outer l own)) = chosen s" by simp
  then show ?thesis
    by (simp add: loadTranslations_catch_def Let_def chosen_def enqueue_def split: option.splits)
qed

lemma chosen_response [simp]: "chosen (loadTranslations_response s l own resp) = chosen s"
proof (cases resp)
  case (Ok r)
  then show ?thesis by (simp add: loadTranslations_response_def chosen_def enqueue_def)
qed (simp_all add: loadTranslations_response_def)

lemma chosen_preload_each [simp]: "chosen (preload_each s ls) = chosen s"
proof (induction ls arbitrary: s)
  case Nil
  show ?case by simp
next
  case (Cons l ls)
  have "chosen (loadTranslations (s\<lparr>preloadedLangs := preloadedLangs s @ [l]\<rparr>) l (Preload l))
        = chosen s"
    by (simp add: chosen_loadTranslations) (simp add: chosen_def)
  then show ?case using Cons by simp
qed

lemma chosen_loadTranslationsWithTimeout [simp]:
  "chosen (loadTranslationsWithTimeout s l c) = chosen s"
proof -
  have "chosen (loadTranslations
           (s\<lparr>timers := timers s @ [(clock s + loadTimeout, TimeoutTimer (nextRace s) l)],
              nextRace := Suc (nextRace s)\<rparr>) l (Race (nextRace s))) = chosen s"
    by (simp add: chosen_loadTranslations) (simp add: chosen_def)
  then show ?thesis
    by (simp add: loadTranslationsWithTimeout_def Let_def chosen_def enqueue_def
        split: option.splits)
qed

lemma chosen_simple [simp]:
  "chosen (saveToLocalStorage s l) = chosen s"
  "chosen (init_finish s) = chosen s"
  "chosen (showLoadingIndicator s b) = chosen s"
  "chosen (useMinimalFallbackTranslations s) = chosen s"
  "chosen (enqueue j s) = chosen s"
  "chosen (s\<lparr>microtasks := ms\<rparr>) = chosen s"
  "chosen (s\<lparr>network := nw\<rparr>) = chosen s"
  "chosen (s\<lparr>timers := ts\<rparr>) = chosen s"
  "chosen (s\<lparr>clock := ck\<rparr>) = chosen s"
  by (simp_all add: chosen_def saveToLocalStorage_def init_finish_def
      preloadPopularLanguages_def showLoadingIndicator_def useMinimalFallbackTranslations_def
      enqueue_def)

lemma chosen_run_job [simp]: "chosen (run_job s j) = chosen s"
proof (cases j)
  case (Deliver own out)
  show ?thesis
  proof (cases own)
    case (Race p)
    then show ?thesis using Deliver by (simp add: chosen_def split: option.splits)
  next
    case (Outer l own')
    then show ?thesis using Deliver by (cases out) simp_all
  next
    case (Refresh l)
    then show ?thesis using Deliver by (cases out) simp_all
  next
    case (Preload l)
    then show ?thesis using Deliver by simp
  qed
next
  case (Resume c out)
  then show ?thesis by (cases c; cases out) simp_all
qed

lemma chosen_fire [simp]: "chosen (fire s tm) = chosen s"
  by (cases tm) simp_all


lemma news_simps [simp]:
  "throws lng (Deliver own out) = False"
  "throws lng (Resume c out) = (c = Switch_await lng \<and> out \<noteq> Fulfilled)"
  "good_news p (Resume c out) = False"
  "good_news p (Deliver own out) = (root own = Race p \<and> out = Fulfilled)"
  "bad_news p (Resume c out) = False"
  "bad_news p (Deliver own out) = (root own = Race p \<and> out \<noteq> Fulfilled)"
  by (simp_all add: throws_def good_news_def bad_news_def)

lemma no_throw_simps [simp]:
  "no_throw lng []"
  "no_throw lng (j # js) = (\<not> throws lng j \<and> no_throw lng js)"
  "no_throw lng (js @ ks) = (no_throw lng js \<and> no_throw lng ks)"
  by (auto simp: no_throw_def)

lemma on_its_way_Nil [simp]: "\<not> on_its_way p []"
  by (simp add: on_its_way_def)

lemma coord_fields:
  "coord s' = coord s \<Longrightarrow> races s' = races s \<and> nextRace s' = nextRace s"
  by (simp add: coord_def)




text \<open>What the functions that load add to the queue.\<close>

lemma microtasks_loadTranslations:
  "microtasks (loadTranslations s l own) = microtasks s
   \<or> microtasks (loadTranslations s l own) = microtasks s @ [Deliver own Fulfilled]"
  by (simp add: loadTranslations_def enqueue_def split: option.splits)

lemma no_throw_loadTranslations [simp]:
  "no_throw lng (microtasks (loadTranslations s l own)) = no_throw lng (microtasks s)"
  using microtasks_loadTranslations[of s l own] by auto

lemma no_throw_preload_each [simp]:
  "no_throw lng (microtasks (preload_each s ls)) = no_throw lng (microtasks s)"
  by (induction ls arbitrary: s) simp_all

lemma no_throw_catch [simp]:
  "no_throw lng (microtasks (loadTranslations_catch s l own)) = no_throw lng (microtasks s)"
  by (simp add: loadTranslations_catch_def Let_def enqueue_def split: option.splits)

lemma no_throw_response [simp]:
  "no_throw lng (microtasks (loadTranslations_response s l own resp)) = no_throw lng (microtasks s)"
  by (cases resp) (simp_all add: loadTranslations_response_def enqueue_def)

lemma no_throw_fire [simp]:
  "no_throw lng (microtasks (fire s tm)) = no_throw lng (microtasks s)"
  by (cases tm) (simp_all add: enqueue_def)


lemma coord_fire [simp]: "coord (fire s tm) = coord s"
  by (cases tm) simp_all




lemma news_map_Resume [simp]:
  "list_ex (good_news p) (map (\<lambda>c. Resume c out) ws) = False"
  "list_ex (bad_news p) (map (\<lambda>c. Resume c out) ws) = False"
  "no_throw lng (map (\<lambda>c. Resume c out) ws) = (out = Fulfilled \<or> Switch_await lng \<notin> set ws)"
  by (induction ws) (auto simp: no_throw_def)

lemma on_its_way_simps [simp]:
  "on_its_way p (Resume c out # js) = on_its_way p js"
  "on_its_way p (js @ map (\<lambda>c. Resume c out) ws) = on_its_way p js"
  "on_its_way p (js @ [Resume c out]) = on_its_way p js"
  by (auto simp: on_its_way_def)





lemma races_loadTranslations [simp]:
  "races (loadTranslations s l own) = races s"
  "nextRace (loadTranslations s l own) = nextRace s"
  using coord_fields[OF coord_loadTranslations[of s l own]] by simp_all












lemma loadingIndicator_loadTranslationsWithTimeout [simp]:
  "loadingIndicator (loadTranslationsWithTimeout s l c) = loadingIndicator s"
  by (simp add: loadTranslationsWithTimeout_def loadTranslations_def Let_def enqueue_def
      split: option.splits)






section \<open>The event loop leaves the template cache alone\<close>

lemma templateCache_loadTranslations [simp]:
  "templateCache (loadTranslations s l own) = templateCache s"
  by (simp add: loadTranslations_def enqueue_def split: option.splits)

lemma templateCache_catch [simp]:
  "templateCache (loadTranslations_catch s l own) = templateCache s"
  by (simp add: loadTranslations_catch_def Let_def enqueue_def split: option.splits)

lemma templateCache_response [simp]:
  "templateCache (loadTranslations_response s l own resp) = templateCache s"
  by (cases resp) (simp_all add: loadTranslations_response_def enqueue_def)

lemma templateCache_preload_each [simp]:
  "templateCache (preload_each s ls) = templateCache s"
  by (induction ls arbitrary: s) simp_all

lemma templateCache_loadTranslationsWithTimeout [simp]:
  "templateCache (loadTranslationsWithTimeout s l c) = templateCache s"
  by (simp add: loadTranslationsWithTimeout_def Let_def enqueue_def split: option.splits)

lemma templateCache_simple [simp]:
  "templateCache (saveToLocalStorage s l) = templateCache s"
  "templateCache (init_finish s) = templateCache s"
  "templateCache (showLoadingIndicator s b) = templateCache s"
  "templateCache (useMinimalFallbackTranslations s) = templateCache s"
  "templateCache (refreshTranslationsInBackground s l) = templateCache s"
  "templateCache (setFallbackChain s) = templateCache s"
  "templateCache (snd (loadFromLocalStorage s l)) = templateCache s"
  "templateCache (enqueue j s) = templateCache s"
  by (simp_all add: saveToLocalStorage_def init_finish_def preloadPopularLanguages_def
      showLoadingIndicator_def useMinimalFallbackTranslations_def
      refreshTranslationsInBackground_def setFallbackChain_def loadFromLocalStorage_def
      enqueue_def split: option.splits stored.splits)

lemma templateCache_run_job [simp]: "templateCache (run_job s j) = templateCache s"
proof (cases j)
  case (Deliver own out)
  show ?thesis
  proof (cases own)
    case (Race p)
    then show ?thesis using Deliver by (simp split: option.splits)
  next
    case (Outer l own')
    then show ?thesis using Deliver by (cases out) simp_all
  next
    case (Refresh l)
    then show ?thesis using Deliver by (cases out) simp_all
  next
    case (Preload l)
    then show ?thesis using Deliver by simp
  qed
next
  case (Resume c out)
  then show ?thesis by (cases c; cases out) simp_all
qed

lemma templateCache_fire [simp]: "templateCache (fire s tm) = templateCache s"
  by (cases tm) simp_all

lemma templateCache_step:
  assumes "step s e = Some s'"
  shows "templateCache s' = templateCache s"
proof (cases "microtasks s")
  case (Cons j js)
  then show ?thesis using assms by (auto simp: step_def split: if_splits)
next
  case Nil
  then have "task s e = Some s'" using assms by (simp add: step_def)
  then show ?thesis
    by (cases e) (auto simp: init_def switchLanguage_def Let_def split: if_splits)
qed

section \<open>Further properties of the loader\<close>

text \<open>
  The languages \<open>init\<close> tries, in order, when the durable cache has no entry that
  parses and every fetch is answered with a failure: the language it settled on, then the
  base of that language if it differs (the fallback inside \<open>loadTranslations\<close>), then the
  default language; a language is fetched again when it occurs twice in this order.
\<close>

theorem init_request_order:
  assumes "\<forall>res. store (currentLang (init (initial pref store w now idle) nav))
             \<noteq> Some (JsonText res)"
  shows "(baseOf (currentLang (init (initial pref store w now idle) nav))
            = currentLang (init (initial pref store w now idle) nav) \<longrightarrow>
          map_option requests (run (init (initial pref store w now idle) nav)
            [Response 0 NetworkError, Micro, Micro, Response 0 NetworkError, Micro, Micro])
          = Some [currentLang (init (initial pref store w now idle) nav), defaultLang])
     \<and> (baseOf (currentLang (init (initial pref store w now idle) nav))
            \<noteq> currentLang (init (initial pref store w now idle) nav) \<longrightarrow>
          map_option requests (run (init (initial pref store w now idle) nav)
            [Response 0 NetworkError, Response 0 NetworkError, Micro, Micro, Micro,
             Response 0 NetworkError, Micro, Micro])
          = Some [currentLang (init (initial pref store w now idle) nav),
                  baseOf (currentLang (init (initial pref store w now idle) nav)),
                  defaultLang])"
proof -
  define L where "L = detectLanguage (setFallbackChain (initial pref store w now idle)) nav"
  have cl: "currentLang (init (initial pref store w now idle) nav) = L"
    by (simp add: currentLang_init L_def)
  have miss: "\<forall>res. store (detectLanguage (setFallbackChain (initial pref store w now idle)) nav)
             \<noteq> Some (JsonText res)"
    using assms by (simp add: currentLang_init)
  note i = init_miss[where store = store and pref = pref and w = w and now = now
      and idle = idle and nav = nav, OF miss, folded L_def]
  have en: "baseOf ''en'' = ''en''" by (simp add: baseOf_def)
  have a: "baseOf L = L \<longrightarrow>
          map_option requests (run (init (initial pref store w now idle) nav)
            [Response 0 NetworkError, Micro, Micro, Response 0 NetworkError, Micro, Micro])
          = Some [L, defaultLang]"
    unfolding i
    by (simp add: step_def enqueue_def remove_nth_def loadTranslations_response_def
        loadTranslations_catch_def loadTranslationsWithTimeout_def loadTranslations_def
        loadTimeout_def defaultLang_def en init_finish_def preloadPopularLanguages_def
        useMinimalFallbackTranslations_def setFallbackChain_def initial_def Let_def)
  have b: "baseOf L \<noteq> L \<longrightarrow>
          map_option requests (run (init (initial pref store w now idle) nav)
            [Response 0 NetworkError, Response 0 NetworkError, Micro, Micro, Micro,
             Response 0 NetworkError, Micro, Micro])
          = Some [L, baseOf L, defaultLang]"
    unfolding i
    by (simp add: step_def enqueue_def remove_nth_def loadTranslations_response_def
        loadTranslations_catch_def loadTranslationsWithTimeout_def loadTranslations_def
        loadTimeout_def defaultLang_def en baseOf_idem init_finish_def
        preloadPopularLanguages_def useMinimalFallbackTranslations_def setFallbackChain_def
        initial_def Let_def)
  show ?thesis unfolding cl using a b by simp
qed

theorem init_request_order_witness:
  "currentLang (init fresh ''fr-CA'') = ''fr-CA'' \<and> baseOf ''fr-CA'' = ''fr''
   \<and> map_option requests (run (init fresh ''fr-CA'')
        [Response 0 NetworkError, Response 0 NetworkError, Micro, Micro, Micro,
         Response 0 NetworkError, Micro, Micro]) = Some [''fr-CA'', ''fr'', ''en'']
   \<and> currentLang (init fresh ''en'') = ''en'' \<and> baseOf ''en'' = ''en''
   \<and> map_option requests (run (init fresh ''en'')
        [Response 0 NetworkError, Micro, Micro, Response 0 NetworkError, Micro, Micro])
      = Some [''en'', ''en'']"
proof -
  have c: "currentLang (init fresh ''fr-CA'') = ''fr-CA''" "currentLang (init fresh ''en'') = ''en''"
    by (simp_all add: currentLang_init detectLanguage_def setFallbackChain_def fresh_def
        initial_def findAvailableLanguage_def baseOf_def)
  have b: "baseOf ''fr-CA'' = ''fr''" "baseOf ''en'' = ''en''" by (simp_all add: baseOf_def)
  show ?thesis
    using init_request_order[where store = Map.empty and pref = None and w = True and now = 0
        and idle = False and nav = "''fr-CA''"]
      init_request_order[where store = Map.empty and pref = None and w = True and now = 0
        and idle = False and nav = "''en''"]
      c b
    by (simp add: fresh_def defaultLang_def)
qed

text \<open>
  When \<open>init\<close> finds an entry of the durable cache, the background refresh that it
  schedules issues no fetch: one second later \<open>loadTranslations\<close> finds the language in the
  memory cache, where \<open>loadFromLocalStorage\<close> has put it, and the refresh writes the same
  entry back to \<open>localStorage\<close> with a new time stamp.
\<close>

theorem refresh_never_fetches:
  assumes "store (currentLang (init (initial pref store w now idle) nav)) = Some (JsonText res)"
  shows "map_option (\<lambda>s. (requests s, network s, activeTranslations s))
           (run (init (initial pref store w now idle) nav) [Elapse 1000, Tick 0, Micro])
         = Some ([], [], res)"
proof -
  define L where "L = detectLanguage (setFallbackChain (initial pref store w now idle)) nav"
  have hit: "store L = Some (JsonText res)"
    using assms by (simp add: currentLang_init L_def)
  have i: "init (initial pref store w now idle) nav =
     (setFallbackChain (initial pref store w now idle))
       \<lparr>currentLang := L, activeTranslations := res, cache := [L \<mapsto> res],
        timers := [(now + 1000, RefreshTimer L),
                   (if idle then now else now + 2000,
                    PreloadTimer [''en'', ''zh-CN'', ''zh-TW'', ''ja'', ''ko''])],
        initialized := True\<rparr>"
    unfolding init_def Let_def L_def[symmetric]
    using hit
    by (simp add: loadFromLocalStorage_def setFallbackChain_def initial_def
        refreshTranslationsInBackground_def init_finish_def preloadPopularLanguages_def)
  show ?thesis
    unfolding i
    by (simp add: step_def remove_nth_def loadTranslations_def enqueue_def
        saveToLocalStorage_def setFallbackChain_def initial_def)
qed

theorem refresh_never_fetches_witness:
  "map_option (\<lambda>s. (requests s, network s, activeTranslations s))
     (run (init (initial None [''ja'' \<mapsto> JsonText [(''greeting'', JStr ''konnichiwa'')]]
                   True 0 False) ''ja'')
        [Elapse 1000, Tick 0, Micro])
   = Some ([], [], [(''greeting'', JStr ''konnichiwa'')])"
proof -
  have "currentLang (init (initial None [''ja'' \<mapsto> JsonText [(''greeting'', JStr ''konnichiwa'')]]
                   True 0 False) ''ja'') = ''ja''"
    by (simp add: currentLang_init detectLanguage_def setFallbackChain_def
        initial_def findAvailableLanguage_def baseOf_def)
  then show ?thesis
    using refresh_never_fetches[where store = "[''ja'' \<mapsto> JsonText [(''greeting'', JStr ''konnichiwa'')]]"
        and pref = None and w = True and now = 0 and idle = False and nav = "''ja''"
        and res = "[(''greeting'', JStr ''konnichiwa'')]"]
    by simp
qed

text \<open>
  The result of \<open>template\<close> does not depend on what \<open>templateCache\<close> holds, as long as
  it holds only closures that \<open>template\<close> stored: the result is that of the closure
  compiled from the string, the cache stays of that kind, and every state of the event
  loop has such a cache.
\<close>

theorem template_cache_transparent:
  "(templateCache_wf s \<longrightarrow>
      fst (template s str d) = compile str d \<and> templateCache_wf (snd (template s str d)))
   \<and> (reachable s \<longrightarrow> templateCache_wf s)"
proof -
  have "reachable s \<Longrightarrow> templateCache s = None"
  proof (induction rule: reachable.induct)
    case (reach_start pref store writable now idle)
    show ?case by (simp add: initial_def)
  next
    case (reach_step s e s')
    have "templateCache s' = templateCache s"
      using reach_step.hyps(2) by (rule templateCache_step)
    then show ?case using reach_step.IH by simp
  qed
  then have "reachable s \<longrightarrow> templateCache_wf s"
    by (simp add: templateCache_wf_def)
  then show ?thesis
    using template_wf_result template_wf_preserved by blast
qed

theorem template_cache_transparent_witness:
  "reachable fresh \<and> templateCache_wf fresh
   \<and> fst (template (snd (template fresh (Json (JStr ''Hi {username}'')) [(''username'', ''Ada'')]))
        (Json (JStr ''Hi {username}'')) [(''username'', ''Bob'')]) = Inr ''Hi Bob''"
proof -
  have r: "reachable fresh" unfolding fresh_def by (rule reachable.reach_start)
  have w: "templateCache_wf fresh"
    using template_cache_transparent[of fresh] r by simp
  have w2: "templateCache_wf (snd (template fresh (Json (JStr ''Hi {username}'')) [(''username'', ''Ada'')]))"
    using template_cache_transparent[of fresh "Json (JStr ''Hi {username}'')" "[(''username'', ''Ada'')]"] w
    by simp
  show ?thesis
    using r w template_cache_transparent[of
        "snd (template fresh (Json (JStr ''Hi {username}'')) [(''username'', ''Ada'')])"
        "Json (JStr ''Hi {username}'')" "[(''username'', ''Bob'')]"] w2
    by (simp add: compile_def placeholder_at_def not_brace_def value_of_def)
qed

end
